theory Spec2Isabelle
  imports Main
begin

section \<open>The probe provider of ply: \<open>src/libply/provider/xprobe.c\<close>\<close>

text \<open>
  The file creates kernel probe definitions by writing text directives to a tracing
  control file through a buffered stdio stream, discovers the resulting event
  directories with \<open>glob\<close>, attaches one perf handle to each, and undoes all of this on
  detach or when attach fails.

  The C functions are embedded as functions on an explicit state: the \<open>xprobe\<close> structure
  and a \<open>world\<close> that holds everything outside the structure which the code reads or
  changes (the stream, the event directory, the table of open descriptors). What the
  kernel and libc decide by themselves (whether a write is accepted, what the attach
  primitive returns, whether \<open>fopen\<close> works) is read from an environment \<open>env\<close> of
  arbitrary functions. Undefined behaviour of the C program (a null or dangling pointer
  used, an array indexed out of range) is a \<open>fault\<close>, returned as \<open>Inl\<close>.

  Names that C starts with two underscores start with \<open>uu_\<close> here.
  \<open>strdup\<close> and \<open>xcalloc\<close> are taken to succeed (the code aborts otherwise). An \<open>int\<close>
  has 32 bits and a pointer 4 or 8 bytes, as the data model of the environment says.
\<close>

subsection \<open>State\<close>

datatype fault = NullDeref | OutOfBounds | ClosedStream

datatype fileptr = NULL | Stream

text \<open>
  \<open>struct xprobe\<close> (declared in \<open>xprobe.h\<close>): the fields this file uses. \<open>ctrl\<close> is the
  \<open>FILE *\<close>: \<open>NULL\<close>, or a pointer to the control stream, whose state is in the world
  (so the pointer can outlive the stream). \<open>evfds\<close>, a pointer to \<open>int\<close>, is \<open>None\<close>
  for a null pointer and otherwise the allocated array, as many \<open>int\<close> slots as the
  block has room for.
\<close>

record xprobe =
  ctrl :: fileptr
  pattern :: string
  stem :: string
  n_evs :: nat
  evfds :: "int list option"
  type :: char

text \<open>
  The world: \<open>evdir\<close> lists the entries \<open>group/event\<close> below \<open>events/\<close> of the tracing
  file system; \<open>wbuf\<close> holds the bytes written to the stream and not yet flushed;
  \<open>written\<close> records every chunk handed to the control file by a flush, in order, and
  \<open>wfail\<close> counts the chunks the kernel refused; \<open>openfds\<close> are the open descriptors;
  \<open>warnings\<close> counts the calls of \<open>_w\<close>.
\<close>

record world =
  evdir :: "string list"
  wbuf :: string
  is_open :: bool
  written :: "string list"
  wfail :: nat
  openfds :: "int list"
  warnings :: nat

text \<open>
  The environment: the macro \<open>TRACEPATH\<close>, \<open>pb->ply->group\<close>, the address of \<open>pb\<close>,
  the symbol table \<open>pb->ply->ksyms\<close> (\<open>None\<close> when null) as the list \<open>ksyms_foreach\<close>
  walks, \<open>fnmatch\<close> with \<open>PLY_FNM_FLAGS\<close> as a predicate (true for a match),
  \<open>sizeof(xp->stem)\<close>, the \<open>errno\<close> of \<open>fopenf\<close> and of \<open>setvbuf\<close> (0 for success),
  the \<open>errno\<close> with which the kernel refuses a directive line (0 when it accepts it),
  the result of \<open>perf_event_attach\<close> on an event path, and the data model the program
  is compiled for, which fixes the size of a pointer.
\<close>

datatype data_model = ILP32 | LP64

record env =
  tracepath :: string
  group :: string
  pb :: nat
  ksyms :: "string list option"
  fnm :: "string \<Rightarrow> string \<Rightarrow> bool"
  stem_size :: nat
  fopen_errno :: nat
  setvbuf_errno :: nat
  kreject :: "world \<Rightarrow> string \<Rightarrow> nat"
  perf_event_attach :: "world \<Rightarrow> string \<Rightarrow> int"
  abi :: data_model

definition EINVAL :: int where
  "EINVAL = 22"

definition EOF :: int where
  "EOF = - 1"

text \<open>
  The writers compute their byte count in \<open>size_t\<close> and return it as an \<open>int\<close>: the
  conversion keeps the value modulo \<open>2^32\<close>, in the range from \<open>-2^31\<close> to \<open>INT_MAX\<close>
  (\<open>size_t\<close> has at least 32 bits, so its own wrap-around does not show). The sum
  that the delete loop keeps in an \<open>int\<close> is reduced in the same way.
\<close>

definition INT_MAX :: int where
  "INT_MAX = 2147483647"

definition wrap_int :: "int \<Rightarrow> int" where
  "wrap_int i = (i + 2147483648) mod 4294967296 - 2147483648"

definition to_int :: "nat \<Rightarrow> int" where
  "to_int n = wrap_int (int n)"

text \<open>
  \<open>sizeof\<close> of an \<open>int\<close> and of a pointer, and \<open>xcalloc\<close>: a zeroed block of
  \<open>nmemb * size\<close> bytes, seen as the array of \<open>int\<close> that \<open>evfds\<close> points to.
\<close>

definition sizeof_int :: nat where
  "sizeof_int = 4"

fun sizeof_ptr :: "data_model \<Rightarrow> nat" where
  "sizeof_ptr ILP32 = 4"
| "sizeof_ptr LP64 = 8"

definition xcalloc :: "nat \<Rightarrow> nat \<Rightarrow> int list" where
  "xcalloc nmemb sz = replicate (nmemb * sz div sizeof_int) 0"

definition warn :: "world \<Rightarrow> world" where
  "warn W = W\<lparr>warnings := Suc (warnings W)\<rparr>"

text \<open>Sequencing: a fault ends the run.\<close>

definition then_do :: "fault + 'a \<Rightarrow> ('a \<Rightarrow> fault + 'b) \<Rightarrow> fault + 'b" where
  "then_do m f = (case m of Inl e \<Rightarrow> Inl e | Inr x \<Rightarrow> f x)"

subsection \<open>The kernel's side of the control file\<close>

text \<open>
  A chunk written to the control file is read line by line. A line \<open>-:NAME\<close> removes
  the event \<open>NAME\<close>; any other line \<open>T:NAME SPEC\<close> defines the event \<open>NAME\<close>. The kernel
  may refuse any line; it then stops and the write fails with that \<open>errno\<close>, the lines
  before it staying applied.
\<close>

fun klines_acc :: "string \<Rightarrow> string \<Rightarrow> string list" where
  "klines_acc acc [] = (if acc = [] then [] else [acc])"
| "klines_acc acc (c # cs) =
     (if c = CHR 0x0A then (if acc = [] then klines_acc [] cs else acc # klines_acc [] cs)
      else klines_acc (acc @ [c]) cs)"

definition klines :: "string \<Rightarrow> string list" where
  "klines s = klines_acc [] s"

definition kapply :: "string \<Rightarrow> string list \<Rightarrow> string list" where
  "kapply l d =
     (if take 2 l = ''-:'' then filter (\<lambda>n. n \<noteq> drop 2 l) d
      else (let n = takeWhile (\<lambda>c. c \<noteq> CHR '' '') (drop 2 l)
            in if n \<in> set d then d else d @ [n]))"

fun kexec :: "env \<Rightarrow> string list \<Rightarrow> world \<Rightarrow> nat \<times> world" where
  "kexec E [] W = (0, W)"
| "kexec E (l # ls) W =
     (let r = kreject E W l
      in if r \<noteq> 0 then (r, W) else kexec E ls (W\<lparr>evdir := kapply l (evdir W)\<rparr>))"

subsection \<open>The stdio stream\<close>

text \<open>
  \<open>fputs\<close> and \<open>fputc\<close> append to the buffer. A flush hands the whole buffer to the
  control file in one write and empties the buffer whether or not the write succeeds;
  it returns the \<open>errno\<close> of the write (0 for success). The automatic flush of a full
  buffer is not modelled: the code's own flushes are. \<open>fclose\<close> flushes and closes.
\<close>

definition fputs :: "string \<Rightarrow> fileptr \<Rightarrow> world \<Rightarrow> fault + world" where
  "fputs s fp W =
     (case fp of NULL \<Rightarrow> Inl NullDeref
      | Stream \<Rightarrow> if is_open W then Inr (W\<lparr>wbuf := wbuf W @ s\<rparr>) else Inl ClosedStream)"

definition fputc :: "char \<Rightarrow> fileptr \<Rightarrow> world \<Rightarrow> fault + world" where
  "fputc c fp W = fputs [c] fp W"

definition do_flush :: "env \<Rightarrow> world \<Rightarrow> nat \<times> world" where
  "do_flush E W =
     (if wbuf W = [] then (0, W)
      else (let chunk = wbuf W;
                (r, W') = kexec E (klines chunk) (W\<lparr>wbuf := [], written := written W @ [chunk]\<rparr>)
            in (r, if r \<noteq> 0 then W'\<lparr>wfail := Suc (wfail W')\<rparr> else W')))"

definition fflush :: "env \<Rightarrow> fileptr \<Rightarrow> world \<Rightarrow> fault + (nat \<times> world)" where
  "fflush E fp W =
     (case fp of NULL \<Rightarrow> Inr (if is_open W then do_flush E W else (0, W))
      | Stream \<Rightarrow> if is_open W then Inr (do_flush E W) else Inl ClosedStream)"

definition fclose :: "env \<Rightarrow> fileptr \<Rightarrow> world \<Rightarrow> fault + world" where
  "fclose E fp W =
     (case fp of NULL \<Rightarrow> Inl NullDeref
      | Stream \<Rightarrow> if is_open W then Inr ((snd (do_flush E W))\<lparr>is_open := False\<rparr>)
                  else Inl ClosedStream)"

subsection \<open>The functions of \<open>xprobe.c\<close>\<close>

fun hex :: "nat \<Rightarrow> string" where
  "hex n =
     (if n < 16 then [''0123456789abcdef'' ! n]
      else hex (n div 16) @ [''0123456789abcdef'' ! (n mod 16)])"

declare hex.simps [simp del]

text \<open>\<open>snprintf\<close> keeps at most \<open>size - 1\<close> bytes and writes nothing when \<open>size\<close> is 0.\<close>

definition xprobe_stem :: "env \<Rightarrow> char \<Rightarrow> string \<Rightarrow> nat \<Rightarrow> string" where
  "xprobe_stem E ty old sz =
     (if sz = 0 then old
      else take (sz - 1) (ty # '':'' @ group E @ ''/p'' @ hex (pb E) @ ''_''))"

text \<open>
  The copy \<open>funcname\<close> that \<open>__xprobe_create\<close> edits in place: \<open>strchr\<close> finds the first
  \<open>+\<close>, which becomes \<open>_\<close>; then the loop turns every \<open>.\<close> into \<open>_\<close>.
\<close>

fun subst_first_plus :: "string \<Rightarrow> string" where
  "subst_first_plus [] = []"
| "subst_first_plus (c # cs) = (if c = CHR ''+'' then CHR ''_'' # cs else c # subst_first_plus cs)"

definition funcname :: "string \<Rightarrow> string" where
  "funcname func = map (\<lambda>c. if c = CHR ''.'' then CHR ''_'' else c) (subst_first_plus func)"

definition uu_xprobe_create :: "fileptr \<Rightarrow> string \<Rightarrow> string \<Rightarrow> world \<Rightarrow> fault + (int \<times> world)" where
  "uu_xprobe_create fp st func W =
     then_do (fputs st fp W) (\<lambda>W1.
     then_do (fputs (funcname func) fp W1) (\<lambda>W2.
     then_do (fputc CHR '' '' fp W2) (\<lambda>W3.
     then_do (fputs func fp W3) (\<lambda>W4.
     then_do (fputc CHR 0x0A fp W4) (\<lambda>W5.
     Inr (to_int (length st + 2 * length func + 2), W5))))))"

definition uu_xprobe_delete :: "fileptr \<Rightarrow> string \<Rightarrow> world \<Rightarrow> fault + (int \<times> world)" where
  "uu_xprobe_delete fp func W =
     then_do (fputs ''-:'' fp W) (\<lambda>W1.
     then_do (fputs func fp W1) (\<lambda>W2.
     then_do (fputc CHR 0x0A fp W2) (\<lambda>W3.
     Inr (to_int (2 + length func + 1), W3))))"

text \<open>
  \<open>glob\<close> with flags 0 on \<open>TRACEPATH events/GROUP/pID_*\<close>: the paths of the entries of
  the group's directory whose name starts with \<open>pID_\<close>, and the error \<open>GLOB_NOMATCH\<close>
  when there is none, which \<open>xprobe_glob\<close> turns into \<open>-EINVAL\<close> like every other error of
  \<open>glob\<close>. The group and \<open>TRACEPATH\<close> are taken to be free of pattern characters.
\<close>

definition ev_prefix :: "env \<Rightarrow> string" where
  "ev_prefix E = group E @ ''/p'' @ hex (pb E) @ ''_''"

definition ev_match :: "env \<Rightarrow> string \<Rightarrow> bool" where
  "ev_match E n = (take (length (ev_prefix E)) n = ev_prefix E)"

definition xprobe_glob :: "env \<Rightarrow> world \<Rightarrow> int \<times> string list" where
  "xprobe_glob E W =
     (let gl = map (\<lambda>n. tracepath E @ ''events/'' @ n) (filter (ev_match E) (evdir W))
      in if gl = [] then (- EINVAL, []) else (0, gl))"

text \<open>
  The loop of \<open>__xprobe_delete_all\<close>, from the path at hand on. \<open>pending\<close> is an
  \<open>int\<close>: the sum \<open>pending += ...\<close> is reduced to the range of \<open>int\<close> like the
  count it adds.
\<close>

fun delete_loop :: "env \<Rightarrow> fileptr \<Rightarrow> nat \<Rightarrow> string list \<Rightarrow> int \<Rightarrow> world \<Rightarrow> fault + (int \<times> world)" where
  "delete_loop E fp evstart [] pending W = Inr (0, W)"
| "delete_loop E fp evstart (p # ps) pending W =
     then_do (uu_xprobe_delete fp (drop evstart p) W) (\<lambda>(n, W1).
       if wrap_int (pending + n) > 0x1000 - 0x200 then
         then_do (fflush E fp W1) (\<lambda>(e, W2).
           if e \<noteq> 0 then Inr (EOF, W2) else delete_loop E fp evstart ps 0 W2)
       else delete_loop E fp evstart ps (wrap_int (pending + n)) W1)"

definition uu_xprobe_delete_all :: "env \<Rightarrow> xprobe \<Rightarrow> world \<Rightarrow> fault + (int \<times> world)" where
  "uu_xprobe_delete_all E xp W =
     (case xprobe_glob E W of (err, gl) \<Rightarrow>
      if err \<noteq> 0 then Inr (err, W)
      else delete_loop E (ctrl xp) (length (tracepath E @ ''events/'')) gl 0
             (if length gl \<noteq> n_evs xp then warn W else W))"

definition close_fd :: "int \<Rightarrow> world \<Rightarrow> world" where
  "close_fd fd W = W\<lparr>openfds := removeAll fd (openfds W)\<rparr>"

definition uu_xprobe_detach :: "xprobe \<Rightarrow> world \<Rightarrow> fault + (int \<times> xprobe \<times> world)" where
  "uu_xprobe_detach xp W =
     (case evfds xp of
        None \<Rightarrow> if n_evs xp = 0 then Inr (0, xp, W) else Inl NullDeref
      | Some a \<Rightarrow>
          if n_evs xp \<le> length a
          then Inr (0, xp\<lparr>evfds := None\<rparr>, fold close_fd (take (n_evs xp) a) W)
          else Inl OutOfBounds)"

definition xprobe_detach :: "env \<Rightarrow> xprobe \<Rightarrow> world \<Rightarrow> fault + (int \<times> xprobe \<times> world)" where
  "xprobe_detach E xp W =
     (if ctrl xp = NULL then Inr (0, xp, W)
      else
        then_do (uu_xprobe_detach xp W) (\<lambda>(err1, xp1, W1).
          if err1 \<noteq> 0 then
            then_do (fclose E (ctrl xp1) W1) (\<lambda>W'. Inr (err1, xp1, W'))
          else
            then_do (uu_xprobe_delete_all E xp1 W1) (\<lambda>(err2, W2).
              if err2 \<noteq> 0 then
                then_do (fclose E (ctrl xp1) W2) (\<lambda>W'. Inr (err2, xp1, W'))
              else
                then_do (fflush E (ctrl xp1) W2) (\<lambda>(e, W3).
                then_do (fclose E (ctrl xp1) W3) (\<lambda>W'.
                Inr (if e \<noteq> 0 then - int e else 0, xp1, W'))))))"

fun create_pattern_loop :: "env \<Rightarrow> string list \<Rightarrow> xprobe \<Rightarrow> world \<Rightarrow> fault + (xprobe \<times> world)" where
  "create_pattern_loop E [] xp W = Inr (xp, W)"
| "create_pattern_loop E (sy # syms) xp W =
     (if \<not> fnm E (pattern xp) sy then create_pattern_loop E syms xp W
      else
        then_do (uu_xprobe_create (ctrl xp) (stem xp) sy W) (\<lambda>(n, W1).
        then_do (fflush E (ctrl xp) W1) (\<lambda>(e, W2).
        create_pattern_loop E syms (xp\<lparr>n_evs := Suc (n_evs xp)\<rparr>)
          (if e \<noteq> 0 then warn W2 else W2))))"

definition xprobe_create_pattern :: "env \<Rightarrow> xprobe \<Rightarrow> world \<Rightarrow> fault + (int \<times> xprobe \<times> world)" where
  "xprobe_create_pattern E xp W =
     (case ksyms E of None \<Rightarrow> Inl NullDeref
      | Some syms \<Rightarrow>
          then_do (create_pattern_loop E syms xp W) (\<lambda>(xp', W'). Inr (0, xp', W')))"

definition strpbrk :: "string \<Rightarrow> string \<Rightarrow> string option" where
  "strpbrk s accept =
     (case dropWhile (\<lambda>c. c \<notin> set accept) s of [] \<Rightarrow> None | r # rs \<Rightarrow> Some (r # rs))"

definition xprobe_create :: "env \<Rightarrow> xprobe \<Rightarrow> world \<Rightarrow> fault + (int \<times> xprobe \<times> world)" where
  "xprobe_create E xp0 W =
     (let xp = xp0\<lparr>stem := xprobe_stem E (type xp0) (stem xp0) (stem_size E)\<rparr>
      in then_do
           (if strpbrk (pattern xp) ''?*[!@'' \<noteq> None \<and> ksyms E \<noteq> None
            then xprobe_create_pattern E xp W
            else then_do (uu_xprobe_create (ctrl xp) (stem xp) (pattern xp) W) (\<lambda>(n, W1).
                   Inr (0, xp\<lparr>n_evs := Suc (n_evs xp)\<rparr>, W1)))
           (\<lambda>(err, xp1, W1).
              if err \<noteq> 0 then Inr (err, xp1, W1)
              else then_do (fflush E (ctrl xp1) W1) (\<lambda>(e, W2).
                     Inr (if e \<noteq> 0 then - int e else 0, xp1, W2))))"

fun attach_loop :: "env \<Rightarrow> string list \<Rightarrow> nat \<Rightarrow> int list \<Rightarrow> world \<Rightarrow> fault + (int \<times> int list \<times> world)" where
  "attach_loop E [] i a W = Inr (0, a, W)"
| "attach_loop E (p # ps) i a W =
     (if i < length a then
        (let fd = perf_event_attach E W p;
             W' = (if 0 \<le> fd then W\<lparr>openfds := fd # openfds W\<rparr> else W)
         in if fd < 0 then Inr (fd, a[i := fd], W')
            else attach_loop E ps (Suc i) (a[i := fd]) W')
      else Inl OutOfBounds)"

definition uu_xprobe_attach :: "env \<Rightarrow> xprobe \<Rightarrow> world \<Rightarrow> fault + (int \<times> xprobe \<times> world)" where
  "uu_xprobe_attach E xp W =
     (case xprobe_glob E W of (err, gl) \<Rightarrow>
      if err \<noteq> 0 then Inr (err, xp, W)
      else
        (case evfds xp of None \<Rightarrow> Inl NullDeref
         | Some a \<Rightarrow>
             then_do (attach_loop E gl 0 a (if length gl \<noteq> n_evs xp then warn W else W))
               (\<lambda>(err', a', W'). Inr (err', xp\<lparr>evfds := Some a'\<rparr>, W'))))"

text \<open>
  The two exits of \<open>xprobe_attach\<close> through its labels: \<open>err_close\<close> deletes what
  \<open>glob\<close> finds and closes the stream, \<open>err_detach\<close> releases the handles first. Neither
  looks at the result of \<open>__xprobe_delete_all\<close>. The handle array is what
  \<open>xcalloc(xp->n_evs, sizeof(xp->evfds))\<close> returns: \<open>n_evs\<close> members of the size of the
  pointer \<open>evfds\<close>, so \<open>n_evs\<close> slots of type \<open>int\<close> where a pointer has 4 bytes and twice
  as many where it has 8.
\<close>

definition err_close :: "env \<Rightarrow> int \<Rightarrow> xprobe \<Rightarrow> world \<Rightarrow> fault + (int \<times> xprobe \<times> world)" where
  "err_close E err xp W =
     then_do (uu_xprobe_delete_all E xp W) (\<lambda>(e, W1).
     then_do (fclose E (ctrl xp) W1) (\<lambda>W2. Inr (err, xp, W2)))"

definition err_detach :: "env \<Rightarrow> int \<Rightarrow> xprobe \<Rightarrow> world \<Rightarrow> fault + (int \<times> xprobe \<times> world)" where
  "err_detach E err xp W =
     then_do (uu_xprobe_detach xp W) (\<lambda>(e, xp1, W1). err_close E err xp1 W1)"

definition xprobe_attach :: "env \<Rightarrow> xprobe \<Rightarrow> world \<Rightarrow> fault + (int \<times> xprobe \<times> world)" where
  "xprobe_attach E xp0 W0 =
     (if fopen_errno E \<noteq> 0 then Inr (- int (fopen_errno E), xp0\<lparr>ctrl := NULL\<rparr>, W0)
      else
        let xp = xp0\<lparr>ctrl := Stream\<rparr>; W = W0\<lparr>is_open := True, wbuf := []\<rparr>
        in if setvbuf_errno E \<noteq> 0 then err_close E (- int (setvbuf_errno E)) xp W
           else
             then_do (xprobe_create E xp W) (\<lambda>(err, xp1, W1).
               if err \<noteq> 0 then err_close E err xp1 W1
               else
                 let xp2 = xp1\<lparr>evfds := Some (xcalloc (n_evs xp1) (sizeof_ptr (abi E)))\<rparr>
                 in then_do (uu_xprobe_attach E xp2 W1) (\<lambda>(err', xp3, W3).
                      if err' \<noteq> 0 then err_detach E err' xp3 W3 else Inr (0, xp3, W3))))"

subsection \<open>The specification's wording of the event-name fragment\<close>

text \<open>
  The target with its first \<open>+\<close> and every \<open>.\<close> replaced by \<open>_\<close>, position by
  position; to be compared with \<open>funcname\<close>, which follows the code.
\<close>

definition sanitized :: "string \<Rightarrow> string" where
  "sanitized t =
     map (\<lambda>i. if t ! i = CHR ''.'' \<or> (t ! i = CHR ''+'' \<and> CHR ''+'' \<notin> set (take i t))
               then CHR ''_'' else t ! i) [0..<length t]"

subsection \<open>Auxiliary notions for the statements\<close>

text \<open>
  The bytes of a delete directive and the line the kernel reads from them; the names
  \<open>glob\<close> finds; names that contain no newline; and what the loop of
  \<open>__xprobe_delete_all\<close> has achieved when it ends with result \<open>e\<close>, \<open>names\<close> being the
  names it was given and \<open>bs\<close>, \<open>bs'\<close> the names whose directives are in the buffer
  before and after.
\<close>

definition delete_cmd :: "string \<Rightarrow> string" where
  "delete_cmd n = ''-:'' @ n"

definition delete_line :: "string \<Rightarrow> string" where
  "delete_line n = ''-:'' @ n @ [CHR 0x0A]"

definition discovered :: "env \<Rightarrow> world \<Rightarrow> string list" where
  "discovered E W = filter (ev_match E) (evdir W)"

definition nlfree :: "string list \<Rightarrow> bool" where
  "nlfree ns = list_all (\<lambda>n. CHR 0x0A \<notin> set n) ns"

definition delete_post :: "env \<Rightarrow> string list \<Rightarrow> string list \<Rightarrow> world \<Rightarrow> int \<Rightarrow> world \<Rightarrow> string list \<Rightarrow> bool" where
  "delete_post E names bs W e W' bs' =
     (is_open W' \<and> openfds W' = openfds W \<and> warnings W' = warnings W \<and>
      set (evdir W') \<subseteq> set (evdir W) \<and>
      (e = 0 \<longrightarrow> wfail W' = wfail W \<and> wbuf W' = concat (map delete_line bs') \<and> nlfree bs' \<and>
         (\<forall>n \<in> set (evdir W'). n \<in> set names \<union> set bs \<longrightarrow> n \<in> set bs')) \<and>
      (e \<noteq> 0 \<longrightarrow> e = EOF \<and> wfail W' = Suc (wfail W) \<and> wbuf W' = []) \<and>
      ((\<forall>W n. kreject E W (delete_cmd n) = 0) \<longrightarrow> e = 0))"

text \<open>
  The bytes of a create directive in the wire format of the specification, and the
  targets it asks for: the symbols that match when the target holds one of the
  characters \<open>?*[!@\<close> and there is a symbol table, the target itself otherwise.
\<close>

definition create_line :: "string \<Rightarrow> string \<Rightarrow> string" where
  "create_line st t = st @ sanitized t @ '' '' @ t @ [CHR 0x0A]"

definition targets :: "env \<Rightarrow> string \<Rightarrow> string list" where
  "targets E t =
     (case ksyms E of
        None \<Rightarrow> [t]
      | Some syms \<Rightarrow> if set t \<inter> set ''?*[!@'' \<noteq> {} then filter (fnm E t) syms else [t])"

subsection \<open>A concrete environment for the examples\<close>

text \<open>
  A matcher for patterns made of \<open>*\<close>, \<open>?\<close> and ordinary characters stands in for
  \<open>fnmatch\<close> in the examples. In \<open>E0\<close> the kernel accepts every directive and the attach
  primitive returns the next free descriptor above 2.
\<close>

fun glob_match :: "string \<Rightarrow> string \<Rightarrow> bool" where
  "glob_match [] [] = True"
| "glob_match [] (c # cs) = False"
| "glob_match (p # ps) [] = (p = CHR ''*'' \<and> glob_match ps [])"
| "glob_match (p # ps) (c # cs) =
     (if p = CHR ''*'' then glob_match ps (c # cs) \<or> glob_match (p # ps) cs
      else (p = CHR ''?'' \<or> p = c) \<and> glob_match ps cs)"

definition E0 :: env where
  "E0 = \<lparr>tracepath = ''/sys/kernel/debug/tracing/'', group = ''ply'', pb = 0x55d0,
          ksyms = Some [''foo'', ''foobar'', ''bar''], fnm = glob_match, stem_size = 0x40,
          fopen_errno = 0, setvbuf_errno = 0, kreject = (\<lambda>W l. 0),
          perf_event_attach = (\<lambda>W p. 3 + int (length (openfds W))), abi = LP64\<rparr>"

definition W0 :: world where
  "W0 = \<lparr>evdir = [], wbuf = [], is_open = False, written = [], wfail = 0, openfds = [],
          warnings = 0\<rparr>"

definition xp0 :: "string \<Rightarrow> xprobe" where
  "xp0 pat = \<lparr>ctrl = NULL, pattern = pat, stem = [], n_evs = 0, evfds = None, type = CHR ''p''\<rparr>"

text \<open>
  A probe attached to \<open>n\<close> events (\<open>n\<close> below 256) whose names are 61 bytes long, so
  that each delete directive is 64 bytes long.
\<close>

definition sym_name :: "nat \<Rightarrow> string" where
  "sym_name k = ''sym_'' @ replicate 45 CHR ''x'' @
                [''abcdefghijklmnop'' ! (k div 16), ''abcdefghijklmnop'' ! (k mod 16)]"

definition ev_name :: "nat \<Rightarrow> string" where
  "ev_name k = ''ply/p55d0_'' @ sym_name k"

definition ev_path :: "nat \<Rightarrow> string" where
  "ev_path k = ''/sys/kernel/debug/tracing/events/'' @ ev_name k"

definition W_attached :: "nat \<Rightarrow> world" where
  "W_attached n = W0\<lparr>evdir := map ev_name [0..<n], is_open := True,
                      openfds := map (\<lambda>k. 3 + int k) [0..<n]\<rparr>"

definition xp_attached :: "nat \<Rightarrow> xprobe" where
  "xp_attached n = \<lparr>ctrl = Stream, pattern = ''sym_*'', stem = ''p:ply/p55d0_'', n_evs = n,
                     evfds = Some (map (\<lambda>k. 3 + int k) [0..<n]), type = CHR ''p''\<rparr>"

text \<open>An environment whose kernel refuses every delete directive with \<open>EBUSY\<close>.\<close>

definition E_busy :: env where
  "E_busy = E0\<lparr>kreject := (\<lambda>W l. if take 2 l = ''-:'' then 16 else 0)\<rparr>"

text \<open>
  Further example states: a world whose event directory holds the given names and whose
  stream is open and empty; the probe for the pattern \<open>foo*\<close> with its stream open.
  \<open>E_rej\<close> is an environment whose kernel refuses every directive, and in \<open>E_4of5\<close>
  the kernel refuses the third of five symbols.
\<close>

definition W_events :: "string list \<Rightarrow> world" where
  "W_events ns = W0\<lparr>evdir := ns, is_open := True\<rparr>"

definition xp_foo :: xprobe where
  "xp_foo = (xp0 ''foo*'')\<lparr>ctrl := Stream\<rparr>"

definition E_rej :: env where
  "E_rej = E0\<lparr>kreject := (\<lambda>W l. 22)\<rparr>"

definition E_4of5 :: env where
  "E_4of5 = E0\<lparr>ksyms := Some [''a1'', ''a2'', ''a3'', ''a4'', ''a5''],
                  kreject := (\<lambda>W l. if l = ''p:ply/p55d0_a3 a3'' then 22 else 0)\<rparr>"

definition four_names :: "string list" where
  "four_names = [''ply/p55d0_a1'', ''ply/p55d0_a2'', ''ply/p55d0_a4'', ''ply/p55d0_a5'']"

text \<open>
  In \<open>E_fail3\<close> there are five symbols and the attach primitive fails with
  \<open>-EACCES\<close> on its third call; \<open>xp_five\<close> and \<open>W_five\<close> are the probe and the world
  once the five definitions are created. \<open>xp_lit\<close> and \<open>W_lit\<close> are the probe and the
  world once the literal target \<open>do_sys_open\<close> is attached.
\<close>

definition E_fail3 :: env where
  "E_fail3 = E0\<lparr>ksyms := Some [''a1'', ''a2'', ''a3'', ''a4'', ''a5''],
                  perf_event_attach :=
                    (\<lambda>W p. if length (openfds W) = 2 then - 13 else 3 + int (length (openfds W)))\<rparr>"

definition xp_five :: xprobe where
  "xp_five = \<lparr>ctrl = Stream, pattern = ''a?'', stem = ''p:ply/p55d0_'', n_evs = 5,
               evfds = None, type = CHR ''p''\<rparr>"

definition W_five :: world where
  "W_five = \<lparr>evdir = [''ply/p55d0_a1'', ''ply/p55d0_a2'', ''ply/p55d0_a3'', ''ply/p55d0_a4'',
                       ''ply/p55d0_a5''],
              wbuf = [], is_open = True,
              written = [''p:ply/p55d0_a1 a1'' @ [CHR 0x0A], ''p:ply/p55d0_a2 a2'' @ [CHR 0x0A],
                         ''p:ply/p55d0_a3 a3'' @ [CHR 0x0A], ''p:ply/p55d0_a4 a4'' @ [CHR 0x0A],
                         ''p:ply/p55d0_a5 a5'' @ [CHR 0x0A]],
              wfail = 0, openfds = [], warnings = 0\<rparr>"

definition xp_lit :: xprobe where
  "xp_lit = \<lparr>ctrl = Stream, pattern = ''do_sys_open'', stem = ''p:ply/p55d0_'', n_evs = 1,
              evfds = Some [3, 0], type = CHR ''p''\<rparr>"

definition W_lit :: world where
  "W_lit = \<lparr>evdir = [''ply/p55d0_do_sys_open''], wbuf = [], is_open = True,
             written = [''p:ply/p55d0_do_sys_open do_sys_open'' @ [CHR 0x0A]], wfail = 0,
             openfds = [3], warnings = 0\<rparr>"

text \<open>
  \<open>W_four\<close> is the world once \<open>E_4of5\<close> has created its definitions. Then
  worlds in which the event directory already holds entries with the probe's prefix, and
  further environments: in \<open>E_fail3_busy\<close> the attach primitive fails on its third
  call and the kernel refuses every delete directive; in \<open>E_fail4\<close> there are two
  symbols and the attach primitive fails on its fourth call.
\<close>

definition W_four :: world where
  "W_four = \<lparr>evdir = four_names, wbuf = [], is_open = True,
              written = [''p:ply/p55d0_a1 a1'' @ [CHR 0x0A], ''p:ply/p55d0_a2 a2'' @ [CHR 0x0A],
                         ''p:ply/p55d0_a3 a3'' @ [CHR 0x0A], ''p:ply/p55d0_a4 a4'' @ [CHR 0x0A],
                         ''p:ply/p55d0_a5 a5'' @ [CHR 0x0A]],
              wfail = 1, openfds = [], warnings = 1\<rparr>"

definition W_old :: world where
  "W_old = W0\<lparr>evdir := [''ply/p55d0_old'']\<rparr>"

definition W_old2 :: world where
  "W_old2 = W0\<lparr>evdir := [''ply/p55d0_x1'', ''ply/p55d0_x2'']\<rparr>"

definition E_fail3_busy :: env where
  "E_fail3_busy = E_fail3\<lparr>kreject := (\<lambda>W l. if take 2 l = ''-:'' then 16 else 0)\<rparr>"

definition E_fail4 :: env where
  "E_fail4 = E0\<lparr>ksyms := Some [''a1'', ''a2''],
                  perf_event_attach :=
                    (\<lambda>W p. if length (openfds W) = 3 then - 13 else 3 + int (length (openfds W)))\<rparr>"

section \<open>Properties\<close>

subsection \<open>Sequencing and the stream\<close>

lemma exI2: "P a b \<Longrightarrow> \<exists>a b. P a b"
  by (intro exI)

lemma exI3: "P a b c \<Longrightarrow> \<exists>a b c. P a b c"
  by (intro exI)

lemma exI4: "P a b c d \<Longrightarrow> \<exists>a b c d. P a b c d"
  by (intro exI)

lemma exI6: "P a b c d e f \<Longrightarrow> \<exists>a b c d e f. P a b c d e f"
  by (intro exI)

lemma then_do_Inr [simp]: "then_do (Inr x) f = f x"
  by (simp add: then_do_def)

lemma then_do_Inl [simp]: "then_do (Inl e) f = Inl e"
  by (simp add: then_do_def)

lemma fputs_open [simp]: "is_open W \<Longrightarrow> fputs s Stream W = Inr (W\<lparr>wbuf := wbuf W @ s\<rparr>)"
  by (simp add: fputs_def)

lemma fputc_open [simp]: "is_open W \<Longrightarrow> fputc c Stream W = Inr (W\<lparr>wbuf := wbuf W @ [c]\<rparr>)"
  by (simp add: fputc_def)

lemma replicate_numeral_unfold:
  "replicate (numeral k) x = x # replicate (pred_numeral k) x"
  by (simp add: numeral_eq_Suc)

text \<open>The definitions a run on a concrete input unfolds.\<close>

lemmas run_defs = xprobe_attach_def xprobe_create_def xprobe_stem_def strpbrk_def
  uu_xprobe_create_def fputs_def fputc_def fflush_def do_flush_def klines_def kapply_def
  uu_xprobe_attach_def xprobe_glob_def ev_match_def ev_prefix_def funcname_def
  xprobe_detach_def uu_xprobe_detach_def uu_xprobe_delete_all_def uu_xprobe_delete_def
  fclose_def close_fd_def err_close_def err_detach_def warn_def EINVAL_def EOF_def
  xprobe_create_pattern_def hex.simps Let_def xcalloc_def sizeof_int_def to_int_def wrap_int_def
  replicate_numeral_unfold

subsection \<open>Integers and the allocation\<close>

lemma wrap_int_id: "- 2147483648 \<le> i \<Longrightarrow> i \<le> INT_MAX \<Longrightarrow> wrap_int i = i"
  by (simp add: wrap_int_def INT_MAX_def)

lemma to_int_id: "int n \<le> INT_MAX \<Longrightarrow> to_int n = int n"
  by (simp add: to_int_def wrap_int_id)

lemma length_xcalloc:
  "length (xcalloc n (sizeof_ptr m)) = (case m of ILP32 \<Rightarrow> n | LP64 \<Rightarrow> 2 * n)"
  by (cases m) (simp_all add: xcalloc_def sizeof_int_def)

lemma xcalloc_ge: "n \<le> length (xcalloc n (sizeof_ptr m))"
  by (cases m) (simp_all add: xcalloc_def sizeof_int_def)

lemma xcalloc_nth: "i < length (xcalloc n sz) \<Longrightarrow> xcalloc n sz ! i = 0"
  by (simp add: xcalloc_def)

subsection \<open>The two writers\<close>

lemma create_open:
  "is_open W \<Longrightarrow>
   uu_xprobe_create Stream st func W =
     Inr (to_int (length st + 2 * length func + 2),
          W\<lparr>wbuf := wbuf W @ st @ funcname func @ '' '' @ func @ [CHR 0x0A]\<rparr>)"
  by (simp add: uu_xprobe_create_def)

lemma delete_open:
  "is_open W \<Longrightarrow>
   uu_xprobe_delete Stream func W =
     Inr (to_int (2 + length func + 1), W\<lparr>wbuf := wbuf W @ ''-:'' @ func @ [CHR 0x0A]\<rparr>)"
  by (simp add: uu_xprobe_delete_def)

lemma length_subst_first_plus [simp]: "length (subst_first_plus t) = length t"
  by (induction t) auto

lemma length_funcname [simp]: "length (funcname t) = length t"
  by (simp add: funcname_def)

lemma nth_subst_first_plus:
  "i < length t \<Longrightarrow>
   subst_first_plus t ! i =
     (if t ! i = CHR ''+'' \<and> CHR ''+'' \<notin> set (take i t) then CHR ''_'' else t ! i)"
proof (induction t arbitrary: i)
  case Nil
  then show ?case by simp
next
  case (Cons c cs)
  show ?case
  proof (cases i)
    case 0
    then show ?thesis by simp
  next
    case (Suc j)
    with Cons show ?thesis by auto
  qed
qed

lemma funcname_sanitized: "funcname t = sanitized t"
  by (rule nth_equalityI) (auto simp: funcname_def sanitized_def nth_subst_first_plus)

text \<open>
  C6. On an open stream the create writer appends exactly the bytes of one line,
  the stem, the target with its first \<open>+\<close> and every \<open>.\<close> replaced by \<open>_\<close>, a space,
  the unmodified target and a newline.
\<close>

theorem create_emits_line:
  assumes "is_open W"
  shows "uu_xprobe_create Stream st target W =
           Inr (to_int (length st + 2 * length target + 2),
                W\<lparr>wbuf := wbuf W @ st @ sanitized target @ '' '' @ target @ [CHR 0x0A]\<rparr>)"
  using assms by (simp add: create_open funcname_sanitized)

text \<open>The target \<open>do_sys_open+0x10\<close> gives the fragment \<open>do_sys_open_0x10\<close>.\<close>

theorem create_emits_line_witness:
  "is_open (W0\<lparr>is_open := True\<rparr>) \<and>
   uu_xprobe_create Stream ''p:ply/p55d0_'' ''do_sys_open+0x10'' (W0\<lparr>is_open := True\<rparr>) =
     Inr (46, W0\<lparr>is_open := True,
                 wbuf := ''p:ply/p55d0_do_sys_open_0x10 do_sys_open+0x10'' @ [CHR 0x0A]\<rparr>)"
  using create_emits_line [of "W0\<lparr>is_open := True\<rparr>" "''p:ply/p55d0_''" "''do_sys_open+0x10''"]
  by (simp add: W0_def sanitized_def to_int_def wrap_int_def)

text \<open>
  C9, as amended. When the number of bytes fits an \<open>int\<close>, the count each writer
  returns is the number of bytes it appended to the stream: the length of the stem plus
  twice the length of the target plus 2 for create (the edited copy has the target's
  length), the length of the name plus 3 for delete.
\<close>

theorem writers_return_bytes_written:
  assumes "is_open W"
    and "int (length st + 2 * length target + 2) \<le> INT_MAX"
    and "int (length name + 3) \<le> INT_MAX"
  shows "(\<exists>W'. uu_xprobe_create Stream st target W =
                 Inr (int (length st + 2 * length target + 2), W') \<and>
               length (wbuf W') = length (wbuf W) + (length st + 2 * length target + 2)) \<and>
         length (funcname target) = length target \<and>
         (\<exists>W'. uu_xprobe_delete Stream name W = Inr (int (length name + 3), W') \<and>
               length (wbuf W') = length (wbuf W) + (length name + 3))"
proof -
  have "to_int (length st + 2 * length target + 2) = int (length st + 2 * length target + 2)"
    using assms(2) by (rule to_int_id)
  moreover have "to_int (2 + length name + 1) = int (length name + 3)"
    using to_int_id [of "2 + length name + 1"] assms(3) by simp
  ultimately show ?thesis using assms(1) by (simp add: create_open delete_open)
qed

theorem writers_return_bytes_written_witness:
  "is_open (W0\<lparr>is_open := True\<rparr>) \<and>
   int (length ''p:ply/p55d0_'' + 2 * length ''a.b+1'' + 2) \<le> INT_MAX \<and>
   int (length ''ply/p55d0_a_b_1'' + 3) \<le> INT_MAX \<and>
   (\<exists>W'. uu_xprobe_create Stream ''p:ply/p55d0_'' ''a.b+1'' (W0\<lparr>is_open := True\<rparr>) = Inr (24, W') \<and>
         length (wbuf W') = 24) \<and>
   length (funcname ''a.b+1'') = 5 \<and>
   (\<exists>W'. uu_xprobe_delete Stream ''ply/p55d0_a_b_1'' (W0\<lparr>is_open := True\<rparr>) = Inr (18, W') \<and>
         length (wbuf W') = 18)"
  using writers_return_bytes_written
    [of "W0\<lparr>is_open := True\<rparr>" "''p:ply/p55d0_''" "''a.b+1''" "''ply/p55d0_a_b_1''"]
  by (simp add: W0_def INT_MAX_def)

text \<open>
  Against C9 as stated: for a target of \<open>2^30\<close> bytes the create writer appends
  2147483662 bytes to the stream and returns -2147483634.
\<close>

theorem create_count_wraps:
  "map_sum id fst
     (uu_xprobe_create Stream ''p:ply/p55d0_'' (replicate 1073741824 CHR ''a'')
        (W0\<lparr>is_open := True\<rparr>)) = Inr (- 2147483634) \<and>
   map_sum id (length \<circ> wbuf \<circ> snd)
     (uu_xprobe_create Stream ''p:ply/p55d0_'' (replicate 1073741824 CHR ''a'')
        (W0\<lparr>is_open := True\<rparr>)) = Inr 2147483662"
  by (simp add: create_open W0_def to_int_def wrap_int_def)

lemma kexec_fields:
  "kexec E ls W = (r, W') \<Longrightarrow>
   wbuf W' = wbuf W \<and> is_open W' = is_open W \<and> written W' = written W \<and>
   wfail W' = wfail W \<and> openfds W' = openfds W \<and> warnings W' = warnings W"
  by (induction ls arbitrary: W) (auto simp: Let_def split: if_splits)

lemma do_flush_fields:
  assumes "do_flush E W = (r, W')"
  shows "wbuf W' = [] \<and> is_open W' = is_open W \<and> openfds W' = openfds W \<and>
         warnings W' = warnings W \<and>
         written W' = (if wbuf W = [] then written W else written W @ [wbuf W]) \<and>
         wfail W' = (if r \<noteq> 0 then Suc (wfail W) else wfail W)"
proof (cases "wbuf W = []")
  case True
  with assms show ?thesis by (auto simp: do_flush_def)
next
  case False
  obtain r1 W1 where
    k: "kexec E (klines (wbuf W)) (W\<lparr>wbuf := [], written := written W @ [wbuf W]\<rparr>) = (r1, W1)"
    by (cases "kexec E (klines (wbuf W)) (W\<lparr>wbuf := [], written := written W @ [wbuf W]\<rparr>)")
  from kexec_fields [OF k] k assms False show ?thesis
    by (auto simp: do_flush_def split: if_splits)
qed

lemma fflush_open: "is_open W \<Longrightarrow> fflush E Stream W = Inr (do_flush E W)"
  by (simp add: fflush_def)

lemma fclose_open:
  "is_open W \<Longrightarrow> fclose E Stream W = Inr ((snd (do_flush E W))\<lparr>is_open := False\<rparr>)"
  by (simp add: fclose_def)

lemma delete_open_line:
  "is_open W \<Longrightarrow>
   uu_xprobe_delete Stream func W =
     Inr (to_int (2 + length func + 1), W\<lparr>wbuf := wbuf W @ delete_line func\<rparr>)"
  by (simp add: delete_open delete_line_def)

lemma delete_line_nonempty [simp]: "delete_line n \<noteq> []"
  by (simp add: delete_line_def)

subsection \<open>The flush threshold of the delete loop\<close>

lemma delete_loop_Cons_open:
  "is_open W \<Longrightarrow>
   delete_loop E Stream k (p # ps) pending W =
     (if wrap_int (pending + to_int (2 + length (drop k p) + 1)) > 3584
      then (case do_flush E (W\<lparr>wbuf := wbuf W @ delete_line (drop k p)\<rparr>) of
              (r, W2) \<Rightarrow> if r \<noteq> 0 then Inr (EOF, W2) else delete_loop E Stream k ps 0 W2)
      else delete_loop E Stream k ps (wrap_int (pending + to_int (2 + length (drop k p) + 1)))
             (W\<lparr>wbuf := wbuf W @ delete_line (drop k p)\<rparr>))"
  by (simp add: delete_open_line fflush_open split: prod.splits)

lemma count_step:
  assumes "0 \<le> pending" and "pending \<le> 3584" and "int len + 3587 \<le> INT_MAX"
  shows "wrap_int (pending + to_int (2 + len + 1)) = pending + int len + 3"
proof -
  have "to_int (2 + len + 1) = int (2 + len + 1)"
    using assms(3) by (intro to_int_id) (simp add: INT_MAX_def)
  moreover have "wrap_int (pending + int (2 + len + 1)) = pending + int (2 + len + 1)"
    using assms by (intro wrap_int_id) (simp_all add: INT_MAX_def)
  ultimately show ?thesis by simp
qed



lemma delete_loop_no_flush:
  assumes "is_open W" and "0 \<le> pending"
    and "pending + int (length (concat (map (\<lambda>p. delete_line (drop k p)) ps1))) \<le> 3584"
  shows "delete_loop E Stream k (ps1 @ ps2) pending W =
         delete_loop E Stream k ps2
           (pending + int (length (concat (map (\<lambda>p. delete_line (drop k p)) ps1))))
           (W\<lparr>wbuf := wbuf W @ concat (map (\<lambda>p. delete_line (drop k p)) ps1)\<rparr>)"
  using assms
proof (induction ps1 arbitrary: pending W)
  case Nil
  then show ?case by simp
next
  case (Cons p ps1)
  let ?W1 = "W\<lparr>wbuf := wbuf W @ delete_line (drop k p)\<rparr>"
  let ?q = "wrap_int (pending + to_int (2 + length (drop k p) + 1))"
  have l: "length (delete_line (drop k p)) = length (drop k p) + 3"
    by (simp add: delete_line_def)
  have q: "?q = pending + int (length (drop k p)) + 3"
    using Cons.prems l by (intro count_step) (simp_all add: INT_MAX_def)
  have small: "\<not> ?q > 3584" using q Cons.prems l by simp
  have "delete_loop E Stream k ((p # ps1) @ ps2) pending W =
        delete_loop E Stream k (ps1 @ ps2) ?q ?W1"
    using delete_loop_Cons_open [OF Cons.prems(1), of E k p "ps1 @ ps2" pending] small by simp
  also have "\<dots> = delete_loop E Stream k ps2
      (?q + int (length (concat (map (\<lambda>p. delete_line (drop k p)) ps1))))
      (?W1\<lparr>wbuf := wbuf ?W1 @ concat (map (\<lambda>p. delete_line (drop k p)) ps1)\<rparr>)"
    using Cons.prems q l by (intro Cons.IH) simp_all
  finally show ?case using q l by (simp add: add.assoc)
qed

lemma length_concat_const:
  "(\<And>x. x \<in> set xs \<Longrightarrow> length (g x) = c) \<Longrightarrow> length (concat (map g xs)) = c * length xs"
  by (induction xs) auto

lemma xprobe_glob_discovered:
  "xprobe_glob E W =
     (if discovered E W = [] then (- EINVAL, [])
      else (0, map (\<lambda>n. tracepath E @ ''events/'' @ n) (discovered E W)))"
  by (simp add: xprobe_glob_def discovered_def Let_def)

lemma drop_evstart:
  "map (drop (length (tp @ ''events/''))) (map (\<lambda>n. tp @ ''events/'' @ n) ns) = ns"
  by (induction ns) auto

lemma delete_all_none:
  "discovered E W = [] \<Longrightarrow> uu_xprobe_delete_all E xp W = Inr (- EINVAL, W)"
  by (simp add: uu_xprobe_delete_all_def xprobe_glob_discovered EINVAL_def)

lemma delete_all_some:
  "discovered E W \<noteq> [] \<Longrightarrow>
   uu_xprobe_delete_all E xp W =
     delete_loop E (ctrl xp) (length (tracepath E @ ''events/''))
       (map (\<lambda>n. tracepath E @ ''events/'' @ n) (discovered E W)) 0
       (if length (discovered E W) \<noteq> n_evs xp then warn W else W)"
  by (simp add: uu_xprobe_delete_all_def xprobe_glob_discovered)

text \<open>The example probe attached to \<open>n\<close> events.\<close>

lemma length_ev_path [simp]: "length (ev_path k) = 94"
  by (simp add: ev_path_def ev_name_def sym_name_def)

lemma drop_ev_path [simp]: "drop 33 (ev_path k) = ev_name k"
  by (simp add: ev_path_def)

lemma length_ev_name [simp]: "length (ev_name k) = 61"
  by (simp add: ev_name_def sym_name_def)

lemma ev_prefix_E0: "ev_prefix E0 = ''ply/p55d0_''"
  by (simp add: ev_prefix_def E0_def hex.simps)

lemma ev_match_E0: "ev_match E0 (ev_name k)"
  by (simp add: ev_match_def ev_prefix_E0 ev_name_def)

lemma discovered_attached: "discovered E0 (W_attached n) = map ev_name [0..<n]"
  by (simp add: discovered_def W_attached_def W0_def ev_match_E0)

lemma evstart_E0: "length (tracepath E0 @ ''events/'') = 33"
  by (simp add: E0_def)

lemma paths_E0: "map (\<lambda>n. tracepath E0 @ ''events/'' @ n) (map ev_name ks) = map ev_path ks"
  by (simp add: E0_def ev_path_def)

lemma delete_all_attached:
  "0 < n \<Longrightarrow>
   uu_xprobe_delete_all E0 (xp_attached n) (W_attached n) =
     delete_loop E0 Stream 33 (map ev_path [0..<n]) 0 (W_attached n)"
proof -
  assume "0 < n"
  then have "discovered E0 (W_attached n) \<noteq> []" by (simp add: discovered_attached)
  from delete_all_some [OF this, of "xp_attached n"] show ?thesis
    by (simp only: discovered_attached evstart_E0 paths_E0) (simp add: xp_attached_def)
qed


subsection \<open>What the kernel does with delete directives\<close>

lemma delete_line_cmd: "delete_line n = delete_cmd n @ [CHR 0x0A]"
  by (simp add: delete_line_def delete_cmd_def)

lemma delete_cmd_nonempty [simp]: "delete_cmd n \<noteq> []"
  by (simp add: delete_cmd_def)

lemma delete_cmd_nl: "CHR 0x0A \<notin> set n \<Longrightarrow> CHR 0x0A \<notin> set (delete_cmd n)"
  by (simp add: delete_cmd_def)

lemma klines_acc_line:
  "CHR 0x0A \<notin> set s \<Longrightarrow> acc @ s \<noteq> [] \<Longrightarrow>
   klines_acc acc (s @ CHR 0x0A # rest) = (acc @ s) # klines_acc [] rest"
  by (induction s arbitrary: acc) auto

lemma klines_delete_lines:
  "nlfree ns \<Longrightarrow> klines (concat (map delete_line ns)) = map delete_cmd ns"
proof (induction ns)
  case Nil
  then show ?case by (simp add: klines_def)
next
  case (Cons n ns)
  have nl: "CHR 0x0A \<notin> set (delete_cmd n)"
    using Cons.prems by (simp add: nlfree_def delete_cmd_nl)
  have "klines_acc [] (delete_cmd n @ CHR 0x0A # concat (map delete_line ns)) =
        ([] @ delete_cmd n) # klines_acc [] (concat (map delete_line ns))"
    by (rule klines_acc_line) (use nl in simp_all)
  moreover have "klines (concat (map delete_line ns)) = map delete_cmd ns"
    using Cons by (simp add: nlfree_def)
  moreover have "concat (map delete_line (n # ns)) =
      delete_cmd n @ CHR 0x0A # concat (map delete_line ns)"
    by (simp add: delete_line_cmd)
  ultimately show ?case by (simp only: klines_def list.map append_Nil)
qed

lemma kapply_delete: "kapply (delete_cmd n) d = filter (\<lambda>m. m \<noteq> n) d"
  by (simp add: kapply_def delete_cmd_def)

lemma kexec_Cons_accept:
  "kreject E W l = 0 \<Longrightarrow> kexec E (l # ls) W = kexec E ls (W\<lparr>evdir := kapply l (evdir W)\<rparr>)"
  by (simp add: Let_def)

lemma kexec_Cons_reject:
  "kreject E W l \<noteq> 0 \<Longrightarrow> kexec E (l # ls) W = (kreject E W l, W)"
  by (simp add: Let_def)

lemma kexec_deletes:
  "kexec E (map delete_cmd ns) W = (r, W') \<Longrightarrow>
   set (evdir W') \<subseteq> set (evdir W) \<and>
   (r = 0 \<longrightarrow> evdir W' = filter (\<lambda>m. m \<notin> set ns) (evdir W))"
proof (induction ns arbitrary: W)
  case Nil
  then show ?case by simp
next
  case (Cons n ns)
  show ?case
  proof (cases "kreject E W (delete_cmd n) = 0")
    case True
    let ?W1 = "W\<lparr>evdir := kapply (delete_cmd n) (evdir W)\<rparr>"
    from True Cons.prems have "kexec E (map delete_cmd ns) ?W1 = (r, W')"
      by (simp add: kexec_Cons_accept)
    from Cons.IH [OF this]
    have 1: "set (evdir W') \<subseteq> set (evdir ?W1)"
      and 2: "r = 0 \<longrightarrow> evdir W' = filter (\<lambda>m. m \<notin> set ns) (evdir ?W1)" by simp_all
    have 3: "evdir ?W1 = filter (\<lambda>m. m \<noteq> n) (evdir W)" by (simp add: kapply_delete)
    have 4: "filter (\<lambda>m. m \<notin> set ns) (filter (\<lambda>m. m \<noteq> n) (evdir W)) =
             filter (\<lambda>m. m \<notin> set (n # ns)) (evdir W)"
      by (induction "evdir W") auto
    from 1 3 have "set (evdir W') \<subseteq> set (evdir W)" by auto
    moreover from 2 3 4 have "r = 0 \<longrightarrow> evdir W' = filter (\<lambda>m. m \<notin> set (n # ns)) (evdir W)"
      by simp
    ultimately show ?thesis by blast
  next
    case False
    with Cons.prems have "r \<noteq> 0" "W' = W" by (auto simp: kexec_Cons_reject)
    then show ?thesis by simp
  qed
qed

lemma kexec_deletes_honoured:
  "\<forall>W n. kreject E W (delete_cmd n) = 0 \<Longrightarrow> fst (kexec E (map delete_cmd ns) W) = 0"
  by (induction ns arbitrary: W) (simp_all add: Let_def)

lemma flush_deletes:
  assumes "wbuf W = concat (map delete_line bs)" and "nlfree bs" and "do_flush E W = (r, W')"
  shows "set (evdir W') \<subseteq> set (evdir W) \<and>
         (r = 0 \<longrightarrow> evdir W' = filter (\<lambda>m. m \<notin> set bs) (evdir W)) \<and>
         ((\<forall>W n. kreject E W (delete_cmd n) = 0) \<longrightarrow> r = 0)"
proof (cases "wbuf W = []")
  case True
  then have "bs = []" using assms(1) by (cases bs) (auto simp: delete_line_def)
  with True assms show ?thesis by (simp add: do_flush_def)
next
  case False
  let ?W0 = "W\<lparr>wbuf := [], written := written W @ [wbuf W]\<rparr>"
  obtain r1 W1 where k: "kexec E (map delete_cmd bs) ?W0 = (r1, W1)"
    by (cases "kexec E (map delete_cmd bs) ?W0")
  have kl: "klines (wbuf W) = map delete_cmd bs"
    using assms by (simp add: klines_delete_lines)
  from assms(3) False k kl have r: "r = r1" and ev: "evdir W' = evdir W1"
    by (auto simp: do_flush_def split: if_splits)
  from kexec_deletes [OF k] have "set (evdir W1) \<subseteq> set (evdir W)"
    and "r1 = 0 \<longrightarrow> evdir W1 = filter (\<lambda>m. m \<notin> set bs) (evdir W)" by simp_all
  moreover have "(\<forall>W n. kreject E W (delete_cmd n) = 0) \<longrightarrow> r1 = 0"
    using kexec_deletes_honoured [of E bs ?W0] k by auto
  ultimately show ?thesis using r ev by simp
qed

lemma delete_loop_post:
  assumes "is_open W" and "wbuf W = concat (map delete_line bs)" and "nlfree bs"
    and "nlfree (map (drop k) ps)"
  shows "\<exists>e W' bs'. delete_loop E Stream k ps pending W = Inr (e, W') \<and>
           delete_post E (map (drop k) ps) bs W e W' bs'"
  using assms
proof (induction ps arbitrary: pending W bs)
  case Nil
  then show ?case by (auto simp: delete_post_def)
next
  case (Cons p ps)
  let ?name = "drop k p"
  let ?W1 = "W\<lparr>wbuf := wbuf W @ delete_line ?name\<rparr>"
  let ?n = "to_int (2 + length ?name + 1)"
  have open1: "is_open ?W1" using Cons.prems by simp
  have buf1: "wbuf ?W1 = concat (map delete_line (bs @ [?name]))" using Cons.prems by simp
  have nl1: "nlfree (bs @ [?name])" using Cons.prems by (simp add: nlfree_def)
  have nlps: "nlfree (map (drop k) ps)" using Cons.prems by (simp add: nlfree_def)
  show ?case
  proof (cases "wrap_int (pending + ?n) > 0x1000 - 0x200")
    case True
    obtain r W2 where fl: "do_flush E ?W1 = (r, W2)" by (cases "do_flush E ?W1")
    note f = do_flush_fields [OF fl]
    note d = flush_deletes [OF buf1 nl1 fl]
    have step: "delete_loop E Stream k (p # ps) pending W =
                (if r \<noteq> 0 then Inr (EOF, W2) else delete_loop E Stream k ps 0 W2)"
      using Cons.prems(1) True fl by (simp add: delete_open_line fflush_open)
    show ?thesis
    proof (cases "r = 0")
      case False
      have "EOF \<noteq> 0" by (simp add: EOF_def)
      with False step f d open1 show ?thesis by (auto simp: delete_post_def)
    next
      case r0: True
      have ev2: "evdir W2 = filter (\<lambda>m. m \<notin> set (bs @ [?name])) (evdir W)"
        using d r0 by simp
      have "\<exists>e W' bs'. delete_loop E Stream k ps 0 W2 = Inr (e, W') \<and>
              delete_post E (map (drop k) ps) [] W2 e W' bs'"
        using f open1 nlps by (intro Cons.IH) (simp_all add: nlfree_def)
      then obtain e W' bs' where loop: "delete_loop E Stream k ps 0 W2 = Inr (e, W')"
        and post: "delete_post E (map (drop k) ps) [] W2 e W' bs'"
        by blast
      have gone: "\<And>n. n \<in> set (evdir W') \<Longrightarrow> n \<in> set (evdir W) \<and> n \<noteq> ?name \<and> n \<notin> set bs"
        using post ev2 by (auto simp: delete_post_def)
      have "delete_post E (map (drop k) (p # ps)) bs W e W' bs'"
        using post gone f r0 open1 by (auto simp: delete_post_def)
      with loop step r0 show ?thesis by auto
    qed
  next
    case False
    have step: "delete_loop E Stream k (p # ps) pending W =
                delete_loop E Stream k ps (wrap_int (pending + ?n)) ?W1"
      using Cons.prems(1) False by (simp add: delete_open_line)
    have "\<exists>e W' bs'. delete_loop E Stream k ps (wrap_int (pending + ?n)) ?W1 = Inr (e, W') \<and>
            delete_post E (map (drop k) ps) (bs @ [?name]) ?W1 e W' bs'"
      using open1 buf1 nl1 nlps by (intro Cons.IH)
    then obtain e W' bs' where loop: "delete_loop E Stream k ps (wrap_int (pending + ?n)) ?W1 = Inr (e, W')"
      and post: "delete_post E (map (drop k) ps) (bs @ [?name]) ?W1 e W' bs'"
      by blast
    have "delete_post E (map (drop k) (p # ps)) bs W e W' bs'"
      using post by (auto simp: delete_post_def)
    with loop step show ?thesis by auto
  qed
qed

subsection \<open>The attach loop\<close>

lemma attach_loop_post:
  "attach_loop E gl i a W = Inr (e, a', W') \<Longrightarrow>
   length a' = length a \<and> evdir W' = evdir W \<and> wbuf W' = wbuf W \<and> is_open W' = is_open W \<and>
   wfail W' = wfail W \<and> written W' = written W \<and> warnings W' = warnings W \<and>
   take i a' = take i a \<and> set (openfds W') \<subseteq> set (openfds W) \<union> set (drop i a') \<and>
   e \<le> 0"
proof (induction gl arbitrary: i a W)
  case Nil
  then show ?case by auto
next
  case (Cons p ps)
  from Cons.prems have i: "i < length a" by (auto split: if_splits)
  let ?fd = "perf_event_attach E W p"
  let ?W1 = "if 0 \<le> ?fd then W\<lparr>openfds := ?fd # openfds W\<rparr> else W"
  show ?case
  proof (cases "?fd < 0")
    case True
    with Cons.prems i show ?thesis by (auto simp: Let_def)
  next
    case False
    with Cons.prems i have rec: "attach_loop E ps (Suc i) (a[i := ?fd]) ?W1 = Inr (e, a', W')"
      by (simp add: Let_def)
    note ih = Cons.IH [OF rec]
    from ih have t: "take (Suc i) a' = take (Suc i) (a[i := ?fd])" by simp
    have len: "length a' = length a" using ih by simp
    from t i len have ai: "a' ! i = ?fd"
      by (metis length_list_update lessI nth_list_update_eq nth_take)
    from t have t2: "take i a' = take i a"
      by (metis take_update_cancel le_refl take_Suc_conv_app_nth butlast_snoc butlast_take diff_Suc_1 len i length_list_update)
    have fdin: "?fd \<in> set (drop i a')" using ai i len
      by (metis Cons_nth_drop_Suc list.set_intros(1))
    have sub: "set (drop (Suc i) a') \<subseteq> set (drop i a')"
      by (simp add: set_drop_subset_set_drop)
    from ih False fdin sub have "set (openfds W') \<subseteq> set (openfds W) \<union> set (drop i a')"
      by auto
    with ih t2 len False show ?thesis by auto
  qed
qed

lemma attach_loop_in_bounds:
  "i + length gl \<le> length a \<Longrightarrow>
   \<exists>e a' W'. attach_loop E gl i a W = Inr (e, a', W') \<and>
     (\<forall>j. i + length gl \<le> j \<longrightarrow> a' ! j = a ! j)"
proof (induction gl arbitrary: i a W)
  case Nil
  then show ?case by simp
next
  case (Cons p ps)
  let ?fd = "perf_event_attach E W p"
  let ?W1 = "if 0 \<le> ?fd then W\<lparr>openfds := ?fd # openfds W\<rparr> else W"
  from Cons.prems have i: "i < length a" by simp
  show ?case
  proof (cases "?fd < 0")
    case True
    with i show ?thesis by (auto simp: Let_def)
  next
    case False
    have "\<exists>e a' W'. attach_loop E ps (Suc i) (a[i := ?fd]) ?W1 = Inr (e, a', W') \<and>
            (\<forall>j. Suc i + length ps \<le> j \<longrightarrow> a' ! j = (a[i := ?fd]) ! j)"
      using Cons.prems by (intro Cons.IH) simp
    with False i show ?thesis by (auto simp: Let_def)
  qed
qed

lemma attach_loop_overflow:
  "\<forall>W p. 0 \<le> perf_event_attach E W p \<Longrightarrow> length a < i + length gl \<Longrightarrow> i \<le> length a \<Longrightarrow>
   attach_loop E gl i a W = Inl OutOfBounds"
proof (induction gl arbitrary: i a W)
  case Nil
  then show ?case by simp
next
  case (Cons p ps)
  show ?case
  proof (cases "i < length a")
    case True
    let ?fd = "perf_event_attach E W p"
    have nn: "\<not> ?fd < 0" using Cons.prems(1) by (simp add: not_less)
    have "attach_loop E ps (Suc i) (a[i := ?fd]) (W\<lparr>openfds := ?fd # openfds W\<rparr>) = Inl OutOfBounds"
      using Cons.prems True by (intro Cons.IH) simp_all
    with True nn Cons.prems(1) show ?thesis by (simp add: Let_def)
  next
    case False
    then show ?thesis by simp
  qed
qed

lemma attach_loop_fds:
  "attach_loop E gl i a W = Inr (e, a', W') \<Longrightarrow>
   set (openfds W') \<subseteq> set (openfds W) \<union> set (take (length gl) (drop i a'))"
proof (induction gl arbitrary: i a W)
  case Nil
  then show ?case by simp
next
  case (Cons p ps)
  from Cons.prems have i: "i < length a" by (auto split: if_splits)
  let ?fd = "perf_event_attach E W p"
  let ?W1 = "if 0 \<le> ?fd then W\<lparr>openfds := ?fd # openfds W\<rparr> else W"
  from attach_loop_post [OF Cons.prems] have len: "length a' = length a" by simp
  have hd: "take (length (p # ps)) (drop i a') = a' ! i # take (length ps) (drop (Suc i) a')"
    using i len by (simp add: Cons_nth_drop_Suc [symmetric])
  show ?case
  proof (cases "?fd < 0")
    case True
    with Cons.prems i have "W' = W" by (auto simp: Let_def)
    then show ?thesis by simp
  next
    case False
    with Cons.prems i have rec: "attach_loop E ps (Suc i) (a[i := ?fd]) ?W1 = Inr (e, a', W')"
      by (simp add: Let_def)
    from attach_loop_post [OF rec] have t: "take (Suc i) a' = take (Suc i) (a[i := ?fd])"
      by simp
    from t i len have ai: "a' ! i = ?fd"
      by (metis length_list_update lessI nth_list_update_eq nth_take)
    from Cons.IH [OF rec]
    have "set (openfds W') \<subseteq> set (openfds ?W1) \<union> set (take (length ps) (drop (Suc i) a'))" .
    with False ai hd show ?thesis by auto
  qed
qed

lemma attach_loop_success:
  "\<forall>W p. 0 \<le> perf_event_attach E W p \<Longrightarrow> i + length gl \<le> length a \<Longrightarrow>
   \<exists>a' W'. attach_loop E gl i a W = Inr (0, a', W') \<and>
     set (openfds W) \<subseteq> set (openfds W') \<and>
     (\<forall>j. i \<le> j \<and> j < i + length gl \<longrightarrow>
        0 \<le> a' ! j \<and> a' ! j \<in> set (openfds W') \<and>
        (\<exists>W''. a' ! j = perf_event_attach E W'' (gl ! (j - i))))"
proof (induction gl arbitrary: i a W)
  case Nil
  then show ?case by auto
next
  case (Cons p ps)
  let ?fd = "perf_event_attach E W p"
  let ?W1 = "W\<lparr>openfds := ?fd # openfds W\<rparr>"
  from Cons.prems have i: "i < length a" and fd: "0 \<le> ?fd" by simp_all
  have "\<exists>a' W'. attach_loop E ps (Suc i) (a[i := ?fd]) ?W1 = Inr (0, a', W') \<and>
     set (openfds ?W1) \<subseteq> set (openfds W') \<and>
     (\<forall>j. Suc i \<le> j \<and> j < Suc i + length ps \<longrightarrow>
        0 \<le> a' ! j \<and> a' ! j \<in> set (openfds W') \<and>
        (\<exists>W''. a' ! j = perf_event_attach E W'' (ps ! (j - Suc i))))"
    using Cons.prems by (intro Cons.IH) simp_all
  then obtain a' W' where big: "attach_loop E ps (Suc i) (a[i := ?fd]) ?W1 = Inr (0, a', W') \<and>
     set (openfds ?W1) \<subseteq> set (openfds W') \<and>
     (\<forall>j. Suc i \<le> j \<and> j < Suc i + length ps \<longrightarrow>
        0 \<le> a' ! j \<and> a' ! j \<in> set (openfds W') \<and>
        (\<exists>W''. a' ! j = perf_event_attach E W'' (ps ! (j - Suc i))))"
    by (elim exE) (erule that)
  from big have loop: "attach_loop E ps (Suc i) (a[i := ?fd]) ?W1 = Inr (0, a', W')"
    by (elim conjE)
  from big have mono: "set (openfds ?W1) \<subseteq> set (openfds W')" by (elim conjE)
  from big have rest: "\<forall>j. Suc i \<le> j \<and> j < Suc i + length ps \<longrightarrow>
        0 \<le> a' ! j \<and> a' ! j \<in> set (openfds W') \<and>
        (\<exists>W''. a' ! j = perf_event_attach E W'' (ps ! (j - Suc i)))" by (elim conjE)
  from attach_loop_post [OF loop] have t: "take (Suc i) a' = take (Suc i) (a[i := ?fd])"
    and len: "length a' = length a" by simp_all
  from t i len have ai: "a' ! i = ?fd"
    by (metis length_list_update lessI nth_list_update_eq nth_take)
  have here: "0 \<le> a' ! i \<and> a' ! i \<in> set (openfds W') \<and>
              (\<exists>W''. a' ! i = perf_event_attach E W'' ((p # ps) ! (i - i)))"
    using ai fd mono by auto
  have all: "\<forall>j. i \<le> j \<and> j < i + length (p # ps) \<longrightarrow>
        0 \<le> a' ! j \<and> a' ! j \<in> set (openfds W') \<and>
        (\<exists>W''. a' ! j = perf_event_attach E W'' ((p # ps) ! (j - i)))"
  proof (intro allI impI)
    fix j assume j: "i \<le> j \<and> j < i + length (p # ps)"
    show "0 \<le> a' ! j \<and> a' ! j \<in> set (openfds W') \<and>
          (\<exists>W''. a' ! j = perf_event_attach E W'' ((p # ps) ! (j - i)))"
    proof (cases "j = i")
      case True
      with here show ?thesis by simp
    next
      case False
      with j have s: "Suc i \<le> j \<and> j < Suc i + length ps" by simp
      then have "(p # ps) ! (j - i) = ps ! (j - Suc i)" by (simp add: nth_Cons')
      with rest s show ?thesis by simp
    qed
  qed
  have "attach_loop E (p # ps) i a W = Inr (0, a', W')"
    using i fd loop by (simp add: Let_def not_less [symmetric])
  moreover have "set (openfds W) \<subseteq> set (openfds W')" using mono by auto
  ultimately show ?case using all by (intro exI [of _ a'] exI [of _ W'] conjI)
qed

lemma attach_loop_error_source:
  "attach_loop E gl i a W = Inr (e, a', W') \<Longrightarrow> e \<noteq> 0 \<Longrightarrow>
   \<exists>W'' p. p \<in> set gl \<and> perf_event_attach E W'' p = e"
proof (induction gl arbitrary: i a W)
  case Nil
  then show ?case by simp
next
  case (Cons p ps)
  from Cons.prems have i: "i < length a" by (auto split: if_splits)
  let ?fd = "perf_event_attach E W p"
  let ?W1 = "if 0 \<le> ?fd then W\<lparr>openfds := ?fd # openfds W\<rparr> else W"
  show ?case
  proof (cases "?fd < 0")
    case True
    with Cons.prems i have "e = ?fd" by (auto simp: Let_def)
    then show ?thesis by auto
  next
    case False
    with Cons.prems i have "attach_loop E ps (Suc i) (a[i := ?fd]) ?W1 = Inr (e, a', W')"
      by (simp add: Let_def)
    from Cons.IH [OF this Cons.prems(2)] show ?thesis by auto
  qed
qed

subsection \<open>Detach\<close>

lemma fold_close_fd:
  "fold close_fd fds W = W\<lparr>openfds := filter (\<lambda>fd. fd \<notin> set fds) (openfds W)\<rparr>"
proof (induction fds arbitrary: W)
  case Nil
  then show ?case by simp
next
  case (Cons fd fds)
  have "filter (\<lambda>x. x \<notin> set fds) (removeAll fd xs) =
        filter (\<lambda>x. x \<notin> set (fd # fds)) xs" for xs
    by (induction xs) auto
  with Cons show ?case by (simp add: close_fd_def)
qed

lemma uu_detach_attached:
  "evfds xp = Some a \<Longrightarrow> n_evs xp \<le> length a \<Longrightarrow>
   uu_xprobe_detach xp W =
     Inr (0, xp\<lparr>evfds := None\<rparr>,
          W\<lparr>openfds := filter (\<lambda>fd. fd \<notin> set (take (n_evs xp) a)) (openfds W)\<rparr>)"
  by (simp add: uu_xprobe_detach_def fold_close_fd)

lemma delete_loop_basic:
  "is_open W \<Longrightarrow>
   \<exists>e W'. delete_loop E Stream k ps pending W = Inr (e, W') \<and> is_open W' \<and>
     openfds W' = openfds W \<and> warnings W' = warnings W \<and> (e = 0 \<longrightarrow> wfail W' = wfail W) \<and>
     (e \<noteq> 0 \<longrightarrow> e = EOF \<and> wfail W' = Suc (wfail W) \<and> wbuf W' = [])"
proof (induction ps arbitrary: pending W)
  case Nil
  then show ?case by simp
next
  case (Cons p ps)
  let ?W1 = "W\<lparr>wbuf := wbuf W @ delete_line (drop k p)\<rparr>"
  let ?q = "wrap_int (pending + to_int (2 + length (drop k p) + 1))"
  have open1: "is_open ?W1" using Cons.prems by simp
  note step = delete_loop_Cons_open [OF Cons.prems, of E k p ps pending]
  show ?case
  proof (cases "?q > 3584")
    case True
    obtain r W2 where fl: "do_flush E ?W1 = (r, W2)" by (cases "do_flush E ?W1")
    note f = do_flush_fields [OF fl]
    show ?thesis
    proof (cases "r = 0")
      case False
      have "EOF \<noteq> 0" by (simp add: EOF_def)
      moreover have "delete_loop E Stream k (p # ps) pending W = Inr (EOF, W2)"
        using step True fl False by simp
      ultimately show ?thesis using False f open1 by auto
    next
      case r0: True
      have "\<exists>e W'. delete_loop E Stream k ps 0 W2 = Inr (e, W') \<and> is_open W' \<and>
              openfds W' = openfds W2 \<and> warnings W' = warnings W2 \<and>
              (e = 0 \<longrightarrow> wfail W' = wfail W2) \<and>
              (e \<noteq> 0 \<longrightarrow> e = EOF \<and> wfail W' = Suc (wfail W2) \<and> wbuf W' = [])"
        using f open1 by (intro Cons.IH) simp
      moreover have "delete_loop E Stream k (p # ps) pending W = delete_loop E Stream k ps 0 W2"
        using step True fl r0 by simp
      ultimately show ?thesis using r0 f by auto
    qed
  next
    case False
    have "\<exists>e W'. delete_loop E Stream k ps ?q ?W1 = Inr (e, W') \<and> is_open W' \<and>
            openfds W' = openfds ?W1 \<and> warnings W' = warnings ?W1 \<and>
            (e = 0 \<longrightarrow> wfail W' = wfail ?W1) \<and>
            (e \<noteq> 0 \<longrightarrow> e = EOF \<and> wfail W' = Suc (wfail ?W1) \<and> wbuf W' = [])"
      using open1 by (intro Cons.IH)
    moreover have "delete_loop E Stream k (p # ps) pending W = delete_loop E Stream k ps ?q ?W1"
      using step False by simp
    ultimately show ?thesis by auto
  qed
qed

text \<open>
  What the loop has handed to the stream when it ends: the directives of the first
  names, in order; all of them when the result is 0, and those up to the directive
  whose forced flush failed otherwise.
\<close>

lemma delete_loop_written:
  "is_open W \<Longrightarrow>
   \<exists>e W' ps1 ps2. delete_loop E Stream k ps pending W = Inr (e, W') \<and> ps = ps1 @ ps2 \<and>
     concat (written W') @ wbuf W' =
       concat (written W) @ wbuf W @ concat (map (\<lambda>p. delete_line (drop k p)) ps1) \<and>
     (e = 0 \<longrightarrow> ps2 = []) \<and> (e \<noteq> 0 \<longrightarrow> ps1 \<noteq> [])"
proof (induction ps arbitrary: pending W)
  case Nil
  have c: "delete_loop E Stream k [] pending W = Inr (0, W) \<and> [] = [] @ [] \<and>
        concat (written W) @ wbuf W =
          concat (written W) @ wbuf W @ concat (map (\<lambda>p. delete_line (drop k p)) []) \<and>
        ((0::int) = 0 \<longrightarrow> [] = []) \<and> ((0::int) \<noteq> 0 \<longrightarrow> [] \<noteq> [])"
    by simp
  show ?case by (rule exI4) (rule c)
next
  case (Cons p ps)
  let ?W1 = "W\<lparr>wbuf := wbuf W @ delete_line (drop k p)\<rparr>"
  let ?q = "wrap_int (pending + to_int (2 + length (drop k p) + 1))"
  let ?dl = "\<lambda>p. delete_line (drop k p)"
  have open1: "is_open ?W1" using Cons.prems by simp
  note step = delete_loop_Cons_open [OF Cons.prems, of E k p ps pending]
  show ?case
  proof (cases "?q > 3584")
    case True
    obtain r W2 where fl: "do_flush E ?W1 = (r, W2)" by (cases "do_flush E ?W1")
    note f = do_flush_fields [OF fl]
    have base: "concat (written W2) @ wbuf W2 = concat (written W) @ wbuf W @ ?dl p"
      using f by simp
    show ?thesis
    proof (cases "r = 0")
      case False
      have "EOF \<noteq> 0" by (simp add: EOF_def)
      moreover have "delete_loop E Stream k (p # ps) pending W = Inr (EOF, W2)"
        using step True fl False by simp
      ultimately have c: "delete_loop E Stream k (p # ps) pending W = Inr (EOF, W2) \<and>
            p # ps = [p] @ ps \<and>
            concat (written W2) @ wbuf W2 =
              concat (written W) @ wbuf W @ concat (map ?dl [p]) \<and>
            (EOF = 0 \<longrightarrow> ps = []) \<and> (EOF \<noteq> 0 \<longrightarrow> [p] \<noteq> [])"
        using base by simp
      show ?thesis by (rule exI4) (rule c)
    next
      case r0: True
      have "\<exists>e W' ps1 ps2. delete_loop E Stream k ps 0 W2 = Inr (e, W') \<and> ps = ps1 @ ps2 \<and>
              concat (written W') @ wbuf W' =
                concat (written W2) @ wbuf W2 @ concat (map ?dl ps1) \<and>
              (e = 0 \<longrightarrow> ps2 = []) \<and> (e \<noteq> 0 \<longrightarrow> ps1 \<noteq> [])"
        using f open1 by (intro Cons.IH) simp
      then obtain e W' ps1 ps2 where big: "delete_loop E Stream k ps 0 W2 = Inr (e, W') \<and>
              ps = ps1 @ ps2 \<and>
              concat (written W') @ wbuf W' =
                concat (written W2) @ wbuf W2 @ concat (map ?dl ps1) \<and>
              (e = 0 \<longrightarrow> ps2 = []) \<and> (e \<noteq> 0 \<longrightarrow> ps1 \<noteq> [])"
        by (elim exE) (erule that)
      from big have l: "delete_loop E Stream k ps 0 W2 = Inr (e, W')" by (elim conjE)
      from big have sp: "ps = ps1 @ ps2" by (elim conjE)
      from big have w: "concat (written W') @ wbuf W' =
                concat (written W2) @ wbuf W2 @ concat (map ?dl ps1)" by (elim conjE)
      from big have z: "e = 0 \<longrightarrow> ps2 = []" by (elim conjE)
      have r: "delete_loop E Stream k (p # ps) pending W = Inr (e, W')"
        using step True fl r0 l by simp
      have w': "concat (written W') @ wbuf W' =
                concat (written W) @ wbuf W @ concat (map ?dl (p # ps1))"
        using w base by simp
      have c: "delete_loop E Stream k (p # ps) pending W = Inr (e, W') \<and>
            p # ps = (p # ps1) @ ps2 \<and>
            concat (written W') @ wbuf W' =
              concat (written W) @ wbuf W @ concat (map ?dl (p # ps1)) \<and>
            (e = 0 \<longrightarrow> ps2 = []) \<and> (e \<noteq> 0 \<longrightarrow> p # ps1 \<noteq> [])"
        using r sp w' z by (intro conjI) simp_all
      show ?thesis by (rule exI4) (rule c)
    qed
  next
    case False
    have "\<exists>e W' ps1 ps2. delete_loop E Stream k ps ?q ?W1 = Inr (e, W') \<and> ps = ps1 @ ps2 \<and>
            concat (written W') @ wbuf W' =
              concat (written ?W1) @ wbuf ?W1 @ concat (map ?dl ps1) \<and>
            (e = 0 \<longrightarrow> ps2 = []) \<and> (e \<noteq> 0 \<longrightarrow> ps1 \<noteq> [])"
      using open1 by (intro Cons.IH)
    then obtain e W' ps1 ps2 where big: "delete_loop E Stream k ps ?q ?W1 = Inr (e, W') \<and>
            ps = ps1 @ ps2 \<and>
            concat (written W') @ wbuf W' =
              concat (written ?W1) @ wbuf ?W1 @ concat (map ?dl ps1) \<and>
            (e = 0 \<longrightarrow> ps2 = []) \<and> (e \<noteq> 0 \<longrightarrow> ps1 \<noteq> [])"
      by (elim exE) (erule that)
    from big have l: "delete_loop E Stream k ps ?q ?W1 = Inr (e, W')" by (elim conjE)
    from big have sp: "ps = ps1 @ ps2" by (elim conjE)
    from big have w: "concat (written W') @ wbuf W' =
              concat (written ?W1) @ wbuf ?W1 @ concat (map ?dl ps1)" by (elim conjE)
    from big have z: "e = 0 \<longrightarrow> ps2 = []" by (elim conjE)
    have r: "delete_loop E Stream k (p # ps) pending W = Inr (e, W')"
      using step False l by simp
    have w': "concat (written W') @ wbuf W' =
              concat (written W) @ wbuf W @ concat (map ?dl (p # ps1))"
      using w by simp
    have c: "delete_loop E Stream k (p # ps) pending W = Inr (e, W') \<and>
          p # ps = (p # ps1) @ ps2 \<and>
          concat (written W') @ wbuf W' =
            concat (written W) @ wbuf W @ concat (map ?dl (p # ps1)) \<and>
          (e = 0 \<longrightarrow> ps2 = []) \<and> (e \<noteq> 0 \<longrightarrow> p # ps1 \<noteq> [])"
      using r sp w' z by (intro conjI) simp_all
    show ?thesis by (rule exI4) (rule c)
  qed
qed

lemma delete_all_post:
  assumes "ctrl xp = Stream" and "is_open W" and "wbuf W = []" and "nlfree (evdir W)"
    and "discovered E W \<noteq> []"
  shows "\<exists>e W2 bs. uu_xprobe_delete_all E xp W = Inr (e, W2) \<and> is_open W2 \<and>
           openfds W2 = openfds W \<and>
           (e = 0 \<longrightarrow> wfail W2 = wfail W \<and> wbuf W2 = concat (map delete_line bs) \<and> nlfree bs \<and>
              (\<forall>n \<in> set (evdir W2). ev_match E n \<longrightarrow> n \<in> set bs)) \<and>
           (e \<noteq> 0 \<longrightarrow> wfail W2 = Suc (wfail W) \<and> wbuf W2 = []) \<and>
           ((\<forall>W n. kreject E W (delete_cmd n) = 0) \<longrightarrow> e = 0)"
proof -
  let ?k = "length (tracepath E @ ''events/'')"
  let ?gl = "map (\<lambda>n. tracepath E @ ''events/'' @ n) (discovered E W)"
  let ?Ww = "if length (discovered E W) \<noteq> n_evs xp then warn W else W"
  have names: "map (drop ?k) ?gl = discovered E W" by (rule drop_evstart)
  have nl: "nlfree (map (drop ?k) ?gl)"
    unfolding names using assms(4) by (auto simp: nlfree_def discovered_def list_all_iff)
  have "\<exists>e W' bs'. delete_loop E Stream ?k ?gl 0 ?Ww = Inr (e, W') \<and>
          delete_post E (map (drop ?k) ?gl) [] ?Ww e W' bs'"
    using assms(2,3) nl by (intro delete_loop_post) (simp_all add: warn_def nlfree_def)
  then obtain e W2 bs where big: "delete_loop E Stream ?k ?gl 0 ?Ww = Inr (e, W2) \<and>
          delete_post E (map (drop ?k) ?gl) [] ?Ww e W2 bs"
    by (elim exE) (erule that)
  from big have loop: "delete_loop E Stream ?k ?gl 0 ?Ww = Inr (e, W2)" by (elim conjE)
  from big have post: "delete_post E (discovered E W) [] ?Ww e W2 bs"
    unfolding names by (elim conjE)
  have ww: "evdir ?Ww = evdir W" "openfds ?Ww = openfds W" "wfail ?Ww = wfail W"
    by (simp_all add: warn_def)
  note post' = post [unfolded delete_post_def ww]
  from post' have honoured: "(\<forall>W n. kreject E W (delete_cmd n) = 0) \<longrightarrow> e = 0"
    by (elim conjE)
  from post' have ok: "e = 0 \<longrightarrow> wfail W2 = wfail W \<and> wbuf W2 = concat (map delete_line bs) \<and>
      nlfree bs \<and> (\<forall>n \<in> set (evdir W2). n \<in> set (discovered E W) \<union> set [] \<longrightarrow> n \<in> set bs)"
    by (elim conjE)
  from post' have bad: "e \<noteq> 0 \<longrightarrow> e = EOF \<and> wfail W2 = Suc (wfail W) \<and> wbuf W2 = []"
    by (elim conjE)
  from post' have o2: "is_open W2" by (elim conjE)
  from post' have fd2: "openfds W2 = openfds W" by (elim conjE)
  from post' have sub: "set (evdir W2) \<subseteq> set (evdir W)" by (elim conjE)
  have ok': "e = 0 \<longrightarrow> wfail W2 = wfail W \<and> wbuf W2 = concat (map delete_line bs) \<and> nlfree bs \<and>
              (\<forall>n \<in> set (evdir W2). ev_match E n \<longrightarrow> n \<in> set bs)"
  proof (intro impI conjI ballI)
    assume e0: "e = 0"
    with ok show "wfail W2 = wfail W" "wbuf W2 = concat (map delete_line bs)" "nlfree bs"
      by simp_all
    fix n assume n: "n \<in> set (evdir W2)" and m: "ev_match E n"
    then have "n \<in> set (discovered E W)" using sub by (auto simp: discovered_def)
    with n ok e0 show "n \<in> set bs" by simp
  qed
  have res: "uu_xprobe_delete_all E xp W = Inr (e, W2)"
    using assms(1,5) loop by (simp add: delete_all_some)
  from res o2 fd2 ok' bad honoured show ?thesis
    by (intro exI [of _ e] exI [of _ W2] exI [of _ bs]) simp
qed

lemma flush_clears_if_accepted:
  assumes "wbuf W = concat (map delete_line bs)" and "nlfree bs"
    and "\<forall>n \<in> set (evdir W). ev_match E n \<longrightarrow> n \<in> set bs"
    and "do_flush E W = (r, W')"
  shows "(r = 0 \<longrightarrow> discovered E W' = []) \<and>
         ((\<forall>W n. kreject E W (delete_cmd n) = 0) \<longrightarrow> r = 0)"
proof -
  note d = flush_deletes [OF assms(1,2,4)]
  have "discovered E W' = []" if "r = 0"
  proof -
    from d that have "evdir W' = filter (\<lambda>m. m \<notin> set bs) (evdir W)" by simp
    then show ?thesis using assms(3) by (auto simp: discovered_def filter_empty_conv)
  qed
  with d show ?thesis by simp
qed

text \<open>
  \<open>__xprobe_delete_all\<close> on an open, empty stream when \<open>glob\<close> finds events: what it
  returns, which directives it has handed to the stream, and what the next flush does.
\<close>

lemma delete_all_full:
  assumes "ctrl xp = Stream" and "is_open W" and "wbuf W = []" and "nlfree (evdir W)"
    and "discovered E W \<noteq> []"
  shows "\<exists>e W2 ns1 ns2.
     uu_xprobe_delete_all E xp W = Inr (e, W2) \<and> is_open W2 \<and> openfds W2 = openfds W \<and>
     warnings W2 =
       (if length (discovered E W) \<noteq> n_evs xp then Suc (warnings W) else warnings W) \<and>
     discovered E W = ns1 @ ns2 \<and> ns1 \<noteq> [] \<and>
     concat (written W2) @ wbuf W2 = concat (written W) @ concat (map delete_line ns1) \<and>
     (e = 0 \<and> ns2 = [] \<and> wfail W2 = wfail W \<or>
      e = EOF \<and> wfail W2 = Suc (wfail W) \<and> wbuf W2 = []) \<and>
     (\<forall>r W3. do_flush E W2 = (r, W3) \<longrightarrow>
        (e = 0 \<and> r = 0 \<longrightarrow> discovered E W3 = []) \<and>
        ((\<forall>W n. kreject E W (delete_cmd n) = 0) \<longrightarrow> r = 0)) \<and>
     ((\<forall>W n. kreject E W (delete_cmd n) = 0) \<longrightarrow> e = 0)"
proof -
  let ?k = "length (tracepath E @ ''events/'')"
  let ?gl = "map (\<lambda>n. tracepath E @ ''events/'' @ n) (discovered E W)"
  let ?Ww = "if length (discovered E W) \<noteq> n_evs xp then warn W else W"
  have oW: "is_open ?Ww" using assms(2) by (simp add: warn_def)
  have ww: "written ?Ww = written W" "wbuf ?Ww = []"
    "warnings ?Ww = (if length (discovered E W) \<noteq> n_evs xp then Suc (warnings W) else warnings W)"
    using assms(3) by (simp_all add: warn_def)
  have da: "uu_xprobe_delete_all E xp W = delete_loop E Stream ?k ?gl 0 ?Ww"
    using assms(1,5) by (simp add: delete_all_some)
  from delete_all_post [OF assms]
  obtain e W2 bs where big: "uu_xprobe_delete_all E xp W = Inr (e, W2) \<and> is_open W2 \<and>
           openfds W2 = openfds W \<and>
           (e = 0 \<longrightarrow> wfail W2 = wfail W \<and> wbuf W2 = concat (map delete_line bs) \<and> nlfree bs \<and>
              (\<forall>n \<in> set (evdir W2). ev_match E n \<longrightarrow> n \<in> set bs)) \<and>
           (e \<noteq> 0 \<longrightarrow> wfail W2 = Suc (wfail W) \<and> wbuf W2 = []) \<and>
           ((\<forall>W n. kreject E W (delete_cmd n) = 0) \<longrightarrow> e = 0)"
    by (elim exE) (erule that)
  from big have res: "uu_xprobe_delete_all E xp W = Inr (e, W2)" by (elim conjE)
  from big have o2: "is_open W2" by (elim conjE)
  from big have fd2: "openfds W2 = openfds W" by (elim conjE)
  from big have ok: "e = 0 \<longrightarrow> wfail W2 = wfail W \<and> wbuf W2 = concat (map delete_line bs) \<and>
      nlfree bs \<and> (\<forall>n \<in> set (evdir W2). ev_match E n \<longrightarrow> n \<in> set bs)" by (elim conjE)
  from big have bad: "e \<noteq> 0 \<longrightarrow> wfail W2 = Suc (wfail W) \<and> wbuf W2 = []" by (elim conjE)
  from big have hon: "(\<forall>W n. kreject E W (delete_cmd n) = 0) \<longrightarrow> e = 0" by (elim conjE)
  from delete_loop_basic [OF oW, of E ?k ?gl 0]
  obtain e1 W21 where b1: "delete_loop E Stream ?k ?gl 0 ?Ww = Inr (e1, W21) \<and> is_open W21 \<and>
     openfds W21 = openfds ?Ww \<and> warnings W21 = warnings ?Ww \<and>
     (e1 = 0 \<longrightarrow> wfail W21 = wfail ?Ww) \<and>
     (e1 \<noteq> 0 \<longrightarrow> e1 = EOF \<and> wfail W21 = Suc (wfail ?Ww) \<and> wbuf W21 = [])"
    by (elim exE) (erule that)
  from b1 have l1: "delete_loop E Stream ?k ?gl 0 ?Ww = Inr (e1, W21)" by (elim conjE)
  from da res l1 have eq1: "e1 = e" "W21 = W2" by simp_all
  from b1 have "warnings W21 = warnings ?Ww" by (elim conjE)
  then have warn2: "warnings W2 =
       (if length (discovered E W) \<noteq> n_evs xp then Suc (warnings W) else warnings W)"
    unfolding eq1 ww .
  from b1 have "e1 \<noteq> 0 \<longrightarrow> e1 = EOF \<and> wfail W21 = Suc (wfail ?Ww) \<and> wbuf W21 = []"
    by (elim conjE)
  then have eof: "e \<noteq> 0 \<longrightarrow> e = EOF" unfolding eq1 by simp
  from delete_loop_written [OF oW, of E ?k ?gl 0]
  obtain e2 W22 ps1 ps2 where b2: "delete_loop E Stream ?k ?gl 0 ?Ww = Inr (e2, W22) \<and>
     ?gl = ps1 @ ps2 \<and>
     concat (written W22) @ wbuf W22 =
       concat (written ?Ww) @ wbuf ?Ww @ concat (map (\<lambda>p. delete_line (drop ?k p)) ps1) \<and>
     (e2 = 0 \<longrightarrow> ps2 = []) \<and> (e2 \<noteq> 0 \<longrightarrow> ps1 \<noteq> [])"
    by (elim exE) (erule that)
  from b2 have l2: "delete_loop E Stream ?k ?gl 0 ?Ww = Inr (e2, W22)" by (elim conjE)
  from da res l2 have eq2: "e2 = e" "W22 = W2" by simp_all
  from b2 have sp: "?gl = ps1 @ ps2" by (elim conjE)
  from b2 have "concat (written W22) @ wbuf W22 =
       concat (written ?Ww) @ wbuf ?Ww @ concat (map (\<lambda>p. delete_line (drop ?k p)) ps1)"
    by (elim conjE)
  then have w: "concat (written W2) @ wbuf W2 =
       concat (written W) @ concat (map (\<lambda>p. delete_line (drop ?k p)) ps1)"
    unfolding eq2 ww by simp
  from b2 have "e2 = 0 \<longrightarrow> ps2 = []" by (elim conjE)
  then have z: "e = 0 \<longrightarrow> ps2 = []" unfolding eq2 .
  from b2 have "e2 \<noteq> 0 \<longrightarrow> ps1 \<noteq> []" by (elim conjE)
  then have nz: "e \<noteq> 0 \<longrightarrow> ps1 \<noteq> []" unfolding eq2 .
  define ns1 where "ns1 = map (drop ?k) ps1"
  define ns2 where "ns2 = map (drop ?k) ps2"
  have names: "map (drop ?k) ?gl = discovered E W" by (rule drop_evstart)
  have "map (drop ?k) ?gl = ns1 @ ns2" unfolding sp ns1_def ns2_def by simp
  with names have split: "discovered E W = ns1 @ ns2" by simp
  have wr: "concat (written W2) @ wbuf W2 = concat (written W) @ concat (map delete_line ns1)"
    using w by (simp add: ns1_def comp_def)
  have z': "e = 0 \<longrightarrow> ns2 = []" using z by (simp add: ns2_def)
  have ne1: "ns1 \<noteq> []"
  proof (cases "e = 0")
    case True
    with z' split assms(5) show ?thesis by auto
  next
    case False
    with nz show ?thesis by (simp add: ns1_def)
  qed
  have cases: "e = 0 \<and> ns2 = [] \<and> wfail W2 = wfail W \<or>
      e = EOF \<and> wfail W2 = Suc (wfail W) \<and> wbuf W2 = []"
    using ok bad eof z' by (cases "e = 0") simp_all
  have fl: "\<forall>r W3. do_flush E W2 = (r, W3) \<longrightarrow>
        (e = 0 \<and> r = 0 \<longrightarrow> discovered E W3 = []) \<and>
        ((\<forall>W n. kreject E W (delete_cmd n) = 0) \<longrightarrow> r = 0)"
  proof (intro allI impI)
    fix r W3 assume f: "do_flush E W2 = (r, W3)"
    show "(e = 0 \<and> r = 0 \<longrightarrow> discovered E W3 = []) \<and>
          ((\<forall>W n. kreject E W (delete_cmd n) = 0) \<longrightarrow> r = 0)"
    proof (cases "e = 0")
      case True
      with ok have b: "wbuf W2 = concat (map delete_line bs)" "nlfree bs"
        "\<forall>n \<in> set (evdir W2). ev_match E n \<longrightarrow> n \<in> set bs" by simp_all
      from flush_clears_if_accepted [OF b f] show ?thesis by simp
    next
      case False
      with bad have "wbuf W2 = []" by simp
      with f have "r = 0" by (simp add: do_flush_def)
      with False show ?thesis by simp
    qed
  qed
  have c: "uu_xprobe_delete_all E xp W = Inr (e, W2) \<and> is_open W2 \<and> openfds W2 = openfds W \<and>
     warnings W2 =
       (if length (discovered E W) \<noteq> n_evs xp then Suc (warnings W) else warnings W) \<and>
     discovered E W = ns1 @ ns2 \<and> ns1 \<noteq> [] \<and>
     concat (written W2) @ wbuf W2 = concat (written W) @ concat (map delete_line ns1) \<and>
     (e = 0 \<and> ns2 = [] \<and> wfail W2 = wfail W \<or>
      e = EOF \<and> wfail W2 = Suc (wfail W) \<and> wbuf W2 = []) \<and>
     (\<forall>r W3. do_flush E W2 = (r, W3) \<longrightarrow>
        (e = 0 \<and> r = 0 \<longrightarrow> discovered E W3 = []) \<and>
        ((\<forall>W n. kreject E W (delete_cmd n) = 0) \<longrightarrow> r = 0)) \<and>
     ((\<forall>W n. kreject E W (delete_cmd n) = 0) \<longrightarrow> e = 0)"
    using res o2 fd2 warn2 split ne1 wr cases fl hon by (intro conjI)
  show ?thesis by (rule exI4) (rule c)
qed

text \<open>The whole of \<open>xprobe_detach\<close> on an attached probe.\<close>

lemma detach_full:
  assumes "ctrl xp = Stream" and "is_open W" and "wbuf W = []" and "evfds xp = Some a"
    and "n_evs xp \<le> length a" and "nlfree (evdir W)"
  shows "\<exists>e W2 en W3 ns1 ns2.
     uu_xprobe_delete_all E (xp\<lparr>evfds := None\<rparr>)
       (W\<lparr>openfds := filter (\<lambda>fd. fd \<notin> set (take (n_evs xp) a)) (openfds W)\<rparr>) = Inr (e, W2) \<and>
     do_flush E W2 = (en, W3) \<and>
     xprobe_detach E xp W =
       Inr (if e \<noteq> 0 then e else - int en, xp\<lparr>evfds := None\<rparr>, W3\<lparr>is_open := False\<rparr>) \<and>
     wbuf W3 = [] \<and>
     warnings W3 =
       (if discovered E W \<noteq> [] \<and> length (discovered E W) \<noteq> n_evs xp
        then Suc (warnings W) else warnings W) \<and>
     openfds W3 = filter (\<lambda>fd. fd \<notin> set (take (n_evs xp) a)) (openfds W) \<and>
     discovered E W = ns1 @ ns2 \<and>
     concat (written W3) = concat (written W) @ concat (map delete_line ns1) \<and>
     (discovered E W = [] \<and> e = - EINVAL \<and> en = 0 \<and> wfail W3 = wfail W \<or>
      discovered E W \<noteq> [] \<and> ns1 \<noteq> [] \<and>
        (e = 0 \<and> ns2 = [] \<and> wfail W3 = (if en \<noteq> 0 then Suc (wfail W) else wfail W) \<or>
         e = EOF \<and> en = 0 \<and> wfail W3 = Suc (wfail W))) \<and>
     (e = 0 \<and> en = 0 \<longrightarrow> discovered E W3 = []) \<and>
     ((\<forall>W n. kreject E W (delete_cmd n) = 0) \<and> discovered E W \<noteq> [] \<longrightarrow> e = 0 \<and> en = 0)"
proof -
  let ?xp1 = "xp\<lparr>evfds := None\<rparr>"
  let ?W1 = "W\<lparr>openfds := filter (\<lambda>fd. fd \<notin> set (take (n_evs xp) a)) (openfds W)\<rparr>"
  have d1: "uu_xprobe_detach xp W = Inr (0, ?xp1, ?W1)"
    using assms(4,5) by (simp add: uu_detach_attached)
  have c1: "ctrl ?xp1 = Stream" using assms(1) by simp
  have open1: "is_open ?W1" using assms(2) by simp
  have buf1: "wbuf ?W1 = []" using assms(3) by simp
  have nl1: "nlfree (evdir ?W1)" using assms(6) by simp
  have disc1: "discovered E ?W1 = discovered E W" by (simp add: discovered_def)
  have EOF0: "EOF \<noteq> 0" by (simp add: EOF_def)
  show ?thesis
  proof (cases "discovered E W = []")
    case True
    have da: "uu_xprobe_delete_all E ?xp1 ?W1 = Inr (- EINVAL, ?W1)"
      using True disc1 by (simp add: delete_all_none)
    have fl: "do_flush E ?W1 = (0, ?W1)" using buf1 by (simp add: do_flush_def)
    have res: "xprobe_detach E xp W =
       Inr (if - EINVAL \<noteq> 0 then - EINVAL else - int 0, ?xp1, ?W1\<lparr>is_open := False\<rparr>)"
      using assms(1) d1 da fl open1
      by (simp add: xprobe_detach_def fclose_open EINVAL_def)
    have c: "uu_xprobe_delete_all E ?xp1 ?W1 = Inr (- EINVAL, ?W1) \<and>
     do_flush E ?W1 = (0, ?W1) \<and>
     xprobe_detach E xp W =
       Inr (if - EINVAL \<noteq> 0 then - EINVAL else - int 0, ?xp1, ?W1\<lparr>is_open := False\<rparr>) \<and>
     wbuf ?W1 = [] \<and>
     warnings ?W1 =
       (if discovered E W \<noteq> [] \<and> length (discovered E W) \<noteq> n_evs xp
        then Suc (warnings W) else warnings W) \<and>
     openfds ?W1 = filter (\<lambda>fd. fd \<notin> set (take (n_evs xp) a)) (openfds W) \<and>
     discovered E W = [] @ [] \<and>
     concat (written ?W1) = concat (written W) @ concat (map delete_line []) \<and>
     (discovered E W = [] \<and> - EINVAL = - EINVAL \<and> (0::nat) = 0 \<and> wfail ?W1 = wfail W \<or>
      discovered E W \<noteq> [] \<and> [] \<noteq> ([]::string list) \<and>
        (- EINVAL = 0 \<and> [] = ([]::string list) \<and>
           wfail ?W1 = (if (0::nat) \<noteq> 0 then Suc (wfail W) else wfail W) \<or>
         - EINVAL = EOF \<and> (0::nat) = 0 \<and> wfail ?W1 = Suc (wfail W))) \<and>
     (- EINVAL = 0 \<and> (0::nat) = 0 \<longrightarrow> discovered E ?W1 = []) \<and>
     ((\<forall>W n. kreject E W (delete_cmd n) = 0) \<and> discovered E W \<noteq> [] \<longrightarrow>
        - EINVAL = 0 \<and> (0::nat) = 0)"
      using da fl res buf1 True by (intro conjI) (simp_all add: EINVAL_def)
    show ?thesis by (rule exI6) (rule c)
  next
    case False
    have ne1: "discovered E ?W1 \<noteq> []" using False disc1 by simp
    from delete_all_full [OF c1 open1 buf1 nl1 ne1]
    obtain e W2 ns1 ns2 where big: "uu_xprobe_delete_all E ?xp1 ?W1 = Inr (e, W2) \<and>
       is_open W2 \<and> openfds W2 = openfds ?W1 \<and>
       warnings W2 =
         (if length (discovered E ?W1) \<noteq> n_evs ?xp1 then Suc (warnings ?W1) else warnings ?W1) \<and>
       discovered E ?W1 = ns1 @ ns2 \<and> ns1 \<noteq> [] \<and>
       concat (written W2) @ wbuf W2 = concat (written ?W1) @ concat (map delete_line ns1) \<and>
       (e = 0 \<and> ns2 = [] \<and> wfail W2 = wfail ?W1 \<or>
        e = EOF \<and> wfail W2 = Suc (wfail ?W1) \<and> wbuf W2 = []) \<and>
       (\<forall>r W3. do_flush E W2 = (r, W3) \<longrightarrow>
          (e = 0 \<and> r = 0 \<longrightarrow> discovered E W3 = []) \<and>
          ((\<forall>W n. kreject E W (delete_cmd n) = 0) \<longrightarrow> r = 0)) \<and>
       ((\<forall>W n. kreject E W (delete_cmd n) = 0) \<longrightarrow> e = 0)"
      by (elim exE) (erule that)
    from big have da: "uu_xprobe_delete_all E ?xp1 ?W1 = Inr (e, W2)" by (elim conjE)
    from big have o2: "is_open W2" by (elim conjE)
    from big have fd2: "openfds W2 = openfds ?W1" by (elim conjE)
    from big have "warnings W2 =
         (if length (discovered E ?W1) \<noteq> n_evs ?xp1 then Suc (warnings ?W1) else warnings ?W1)"
      by (elim conjE)
    then have wn2: "warnings W2 =
         (if length (discovered E W) \<noteq> n_evs xp then Suc (warnings W) else warnings W)"
      unfolding disc1 by simp
    from big have "discovered E ?W1 = ns1 @ ns2" by (elim conjE)
    then have split: "discovered E W = ns1 @ ns2" unfolding disc1 .
    from big have ne: "ns1 \<noteq> []" by (elim conjE)
    from big have "concat (written W2) @ wbuf W2 =
        concat (written ?W1) @ concat (map delete_line ns1)" by (elim conjE)
    then have wr: "concat (written W2) @ wbuf W2 =
        concat (written W) @ concat (map delete_line ns1)" by simp
    from big have "e = 0 \<and> ns2 = [] \<and> wfail W2 = wfail ?W1 \<or>
        e = EOF \<and> wfail W2 = Suc (wfail ?W1) \<and> wbuf W2 = []" by (elim conjE)
    then have cs: "e = 0 \<and> ns2 = [] \<and> wfail W2 = wfail W \<or>
        e = EOF \<and> wfail W2 = Suc (wfail W) \<and> wbuf W2 = []" by simp
    from big have flq: "\<forall>r W3. do_flush E W2 = (r, W3) \<longrightarrow>
          (e = 0 \<and> r = 0 \<longrightarrow> discovered E W3 = []) \<and>
          ((\<forall>W n. kreject E W (delete_cmd n) = 0) \<longrightarrow> r = 0)" by (elim conjE)
    from big have hon: "(\<forall>W n. kreject E W (delete_cmd n) = 0) \<longrightarrow> e = 0" by (elim conjE)
    obtain en W3 where fl: "do_flush E W2 = (en, W3)" by (cases "do_flush E W2")
    note f = do_flush_fields [OF fl]
    from flq fl have clr: "e = 0 \<and> en = 0 \<longrightarrow> discovered E W3 = []"
      and hon2: "(\<forall>W n. kreject E W (delete_cmd n) = 0) \<longrightarrow> en = 0" by simp_all
    have b3: "wbuf W3 = []" using f by simp
    have wn3: "warnings W3 =
       (if discovered E W \<noteq> [] \<and> length (discovered E W) \<noteq> n_evs xp
        then Suc (warnings W) else warnings W)"
      using f wn2 False by simp
    have fd3: "openfds W3 = filter (\<lambda>fd. fd \<notin> set (take (n_evs xp) a)) (openfds W)"
      using f fd2 by simp
    have wr3: "concat (written W3) = concat (written W) @ concat (map delete_line ns1)"
      using f wr by (cases "wbuf W2 = []") simp_all
    have fl2: "do_flush E W3 = (0, W3)" using b3 by (simp add: do_flush_def)
    have res: "xprobe_detach E xp W =
       Inr (if e \<noteq> 0 then e else - int en, ?xp1, W3\<lparr>is_open := False\<rparr>)"
    proof (cases "e = 0")
      case True
      then show ?thesis
        using assms(1) d1 da fl fl2 o2 f
        by (simp add: xprobe_detach_def fflush_open fclose_open)
    next
      case False
      then show ?thesis
        using assms(1) d1 da fl o2 by (simp add: xprobe_detach_def fclose_open)
    qed
    have cs3: "discovered E W = [] \<and> e = - EINVAL \<and> en = 0 \<and> wfail W3 = wfail W \<or>
      discovered E W \<noteq> [] \<and> ns1 \<noteq> [] \<and>
        (e = 0 \<and> ns2 = [] \<and> wfail W3 = (if en \<noteq> 0 then Suc (wfail W) else wfail W) \<or>
         e = EOF \<and> en = 0 \<and> wfail W3 = Suc (wfail W))"
    proof (cases "e = 0")
      case True
      with cs EOF0 have "ns2 = []" "wfail W2 = wfail W" by auto
      with True False ne f show ?thesis by simp
    next
      case ne0: False
      with cs have e: "e = EOF" and w2: "wfail W2 = Suc (wfail W)" and b2: "wbuf W2 = []"
        by auto
      from b2 fl have "en = 0" "W3 = W2" by (simp_all add: do_flush_def)
      with e w2 False ne show ?thesis by simp
    qed
    have hon3: "(\<forall>W n. kreject E W (delete_cmd n) = 0) \<and> discovered E W \<noteq> [] \<longrightarrow>
                  e = 0 \<and> en = 0"
      using hon hon2 by simp
    have c: "uu_xprobe_delete_all E ?xp1 ?W1 = Inr (e, W2) \<and>
     do_flush E W2 = (en, W3) \<and>
     xprobe_detach E xp W =
       Inr (if e \<noteq> 0 then e else - int en, ?xp1, W3\<lparr>is_open := False\<rparr>) \<and>
     wbuf W3 = [] \<and>
     warnings W3 =
       (if discovered E W \<noteq> [] \<and> length (discovered E W) \<noteq> n_evs xp
        then Suc (warnings W) else warnings W) \<and>
     openfds W3 = filter (\<lambda>fd. fd \<notin> set (take (n_evs xp) a)) (openfds W) \<and>
     discovered E W = ns1 @ ns2 \<and>
     concat (written W3) = concat (written W) @ concat (map delete_line ns1) \<and>
     (discovered E W = [] \<and> e = - EINVAL \<and> en = 0 \<and> wfail W3 = wfail W \<or>
      discovered E W \<noteq> [] \<and> ns1 \<noteq> [] \<and>
        (e = 0 \<and> ns2 = [] \<and> wfail W3 = (if en \<noteq> 0 then Suc (wfail W) else wfail W) \<or>
         e = EOF \<and> en = 0 \<and> wfail W3 = Suc (wfail W))) \<and>
     (e = 0 \<and> en = 0 \<longrightarrow> discovered E W3 = []) \<and>
     ((\<forall>W n. kreject E W (delete_cmd n) = 0) \<and> discovered E W \<noteq> [] \<longrightarrow> e = 0 \<and> en = 0)"
      using da fl res b3 wn3 fd3 split wr3 cs3 clr hon3 by (intro conjI)
    show ?thesis by (rule exI6) (rule c)
  qed
qed



lemma klines_first:
  "CHR 0x0A \<notin> set n \<Longrightarrow> klines (delete_cmd n @ CHR 0x0A # rest) = delete_cmd n # klines rest"
  unfolding klines_def
  using klines_acc_line [of "delete_cmd n" "[]" rest] by (simp add: delete_cmd_nl)

lemma do_flush_rejected:
  assumes "wbuf W = delete_cmd n @ CHR 0x0A # rest" and "CHR 0x0A \<notin> set n"
    and "\<forall>W'. kreject E W' (delete_cmd n) = c" and "c \<noteq> 0"
  shows "do_flush E W = (c, W\<lparr>wbuf := [], written := written W @ [wbuf W], wfail := Suc (wfail W)\<rparr>)"
proof -
  have "klines (wbuf W) = delete_cmd n # klines rest"
    using assms(1,2) by (simp add: klines_first)
  moreover have "wbuf W \<noteq> []" using assms(1) by simp
  ultimately show ?thesis
    using assms(3,4) by (simp add: do_flush_def kexec_Cons_reject)
qed

lemma split58: "map ev_path [0..<58] = map ev_path [0..<56] @ [ev_path 56, ev_path 57]"
proof -
  have "[0..<58::nat] = [0..<56] @ [56..<58]" using upt_add_eq_append [of 0 56 2] by simp
  moreover have "[56..<58::nat] = [56, 57]"
    using upt_conv_Cons [of 56 58] upt_conv_Cons [of 57 58] by simp
  ultimately show ?thesis by simp
qed

lemma split57: "map ev_name [0..<57] = ev_name 0 # map ev_name [1..<56] @ [ev_name 56]"
proof -
  have "[0..<57::nat] = [0..<56] @ [56..<57]" using upt_add_eq_append [of 0 56 1] by simp
  moreover have "[56..<57::nat] = [56]" using upt_conv_Cons [of 56 57] by simp
  moreover have "[0..<56::nat] = 0 # [1..<56]" using upt_conv_Cons [of 0 56] by simp
  ultimately show ?thesis by simp
qed

lemma nl_ev_name0: "CHR 0x0A \<notin> set (ev_name 0)"
  by (simp add: ev_name_def sym_name_def)

lemma E_busy_fields:
  "tracepath E_busy = tracepath E0" "group E_busy = group E0" "pb E_busy = pb E0"
  "kreject E_busy W (delete_cmd n) = 16"
  by (simp_all add: E_busy_def delete_cmd_def)

lemma ev_match_busy: "ev_match E_busy = ev_match E0"
  by (rule ext) (simp add: ev_match_def ev_prefix_def E_busy_fields)

lemma discovered_busy: "discovered E_busy W = discovered E0 W"
  by (simp add: discovered_def ev_match_busy)

lemma chunk57:
  "concat (map (\<lambda>p. delete_line (drop 33 p)) (map ev_path [0..<56])) @ delete_line (ev_name 56) =
   concat (map delete_line (map ev_name [0..<57]))"
proof -
  have "[0..<57::nat] = [0..<56] @ [56]"
    using upt_add_eq_append [of 0 56 1] upt_conv_Cons [of 56 57] by simp
  then show ?thesis by (simp add: comp_def)
qed

lemma head57:
  "concat (map delete_line (map ev_name [0..<57])) =
   delete_cmd (ev_name 0) @ CHR 0x0A #
     concat (map delete_line (map ev_name [1..<56] @ [ev_name 56]))"
  unfolding split57 by (simp add: delete_line_cmd)


subsection \<open>Attaching to the discovered events\<close>

lemma uu_attach_none:
  "discovered E W = [] \<Longrightarrow> uu_xprobe_attach E xp W = Inr (- EINVAL, xp, W)"
  by (simp add: uu_xprobe_attach_def xprobe_glob_discovered EINVAL_def)

lemma uu_attach_some:
  "discovered E W \<noteq> [] \<Longrightarrow> evfds xp = Some a \<Longrightarrow>
   uu_xprobe_attach E xp W =
     then_do (attach_loop E (map (\<lambda>n. tracepath E @ ''events/'' @ n) (discovered E W)) 0 a
                (if length (discovered E W) \<noteq> n_evs xp then warn W else W))
       (\<lambda>(err', a', W'). Inr (err', xp\<lparr>evfds := Some a'\<rparr>, W'))"
  by (simp add: uu_xprobe_attach_def xprobe_glob_discovered)

lemma xprobe_attach_unfold:
  assumes "fopen_errno E = 0" and "setvbuf_errno E = 0"
    and "xprobe_create E (xp\<lparr>ctrl := Stream\<rparr>) (W\<lparr>is_open := True, wbuf := []\<rparr>) = Inr (err, xp1, W1)"
  shows "xprobe_attach E xp W =
         (if err \<noteq> 0 then err_close E err xp1 W1
          else then_do (uu_xprobe_attach E
                          (xp1\<lparr>evfds := Some (xcalloc (n_evs xp1) (sizeof_ptr (abi E)))\<rparr>) W1)
                 (\<lambda>(err', xp3, W3).
                    if err' \<noteq> 0 then err_detach E err' xp3 W3 else Inr (0, xp3, W3)))"
  using assms by (simp add: xprobe_attach_def Let_def)

text \<open>
  Attach when every call of the attach primitive succeeds and the events found fit the
  handle array: the handles of the events, in the order of \<open>glob\<close>, fill the first
  slots and the other slots stay 0.
\<close>

lemma attach_all_succeed:
  assumes "fopen_errno E = 0" and "setvbuf_errno E = 0"
    and "xprobe_create E (xp\<lparr>ctrl := Stream\<rparr>) (W\<lparr>is_open := True, wbuf := []\<rparr>) = Inr (0, xp1, W1)"
    and "discovered E W1 \<noteq> []"
    and "length (discovered E W1) \<le> length (xcalloc (n_evs xp1) (sizeof_ptr (abi E)))"
    and "\<forall>W p. 0 \<le> perf_event_attach E W p"
  shows "\<exists>a' W'. xprobe_attach E xp W = Inr (0, xp1\<lparr>evfds := Some a'\<rparr>, W') \<and>
           warnings W' =
             (if length (discovered E W1) \<noteq> n_evs xp1 then Suc (warnings W1) else warnings W1) \<and>
           evdir W' = evdir W1 \<and>
           length a' = length (xcalloc (n_evs xp1) (sizeof_ptr (abi E))) \<and>
           (\<forall>j. j < length (discovered E W1) \<longrightarrow>
              0 \<le> a' ! j \<and> a' ! j \<in> set (openfds W') \<and>
              (\<exists>W''. a' ! j =
                 perf_event_attach E W'' (tracepath E @ ''events/'' @ discovered E W1 ! j))) \<and>
           (\<forall>j. length (discovered E W1) \<le> j \<and> j < length a' \<longrightarrow> a' ! j = 0)"
proof -
  let ?a = "xcalloc (n_evs xp1) (sizeof_ptr (abi E))"
  let ?xp2 = "xp1\<lparr>evfds := Some ?a\<rparr>"
  let ?gl = "map (\<lambda>n. tracepath E @ ''events/'' @ n) (discovered E W1)"
  let ?Ww = "if length (discovered E W1) \<noteq> n_evs xp1 then warn W1 else W1"
  have b: "0 + length ?gl \<le> length ?a" using assms(5) by simp
  from attach_loop_success [OF assms(6) b, of ?Ww]
  obtain a' W' where big: "attach_loop E ?gl 0 ?a ?Ww = Inr (0, a', W') \<and>
     set (openfds ?Ww) \<subseteq> set (openfds W') \<and>
     (\<forall>j. 0 \<le> j \<and> j < 0 + length ?gl \<longrightarrow>
        0 \<le> a' ! j \<and> a' ! j \<in> set (openfds W') \<and>
        (\<exists>W''. a' ! j = perf_event_attach E W'' (?gl ! (j - 0))))"
    by (elim exE) (erule that)
  from big have loop: "attach_loop E ?gl 0 ?a ?Ww = Inr (0, a', W')" by (elim conjE)
  from big have all: "\<forall>j. 0 \<le> j \<and> j < 0 + length ?gl \<longrightarrow>
        0 \<le> a' ! j \<and> a' ! j \<in> set (openfds W') \<and>
        (\<exists>W''. a' ! j = perf_event_attach E W'' (?gl ! (j - 0)))" by (elim conjE)
  from attach_loop_in_bounds [OF b, of E ?Ww]
  obtain e2 a2 W2 where big2: "attach_loop E ?gl 0 ?a ?Ww = Inr (e2, a2, W2) \<and>
     (\<forall>j. 0 + length ?gl \<le> j \<longrightarrow> a2 ! j = ?a ! j)"
    by (elim exE) (erule that)
  from big2 have loop2: "attach_loop E ?gl 0 ?a ?Ww = Inr (e2, a2, W2)" by (elim conjE)
  from loop loop2 have eq: "a2 = a'" by simp
  from big2 have "\<forall>j. 0 + length ?gl \<le> j \<longrightarrow> a2 ! j = ?a ! j" by (elim conjE)
  then have keep: "\<forall>j. length (discovered E W1) \<le> j \<longrightarrow> a' ! j = ?a ! j"
    unfolding eq by simp
  from attach_loop_post [OF loop] have len: "length a' = length ?a"
    and ev: "evdir W' = evdir ?Ww" and w: "warnings W' = warnings ?Ww" by simp_all
  have ev': "evdir W' = evdir W1" using ev by (simp add: warn_def)
  have w': "warnings W' =
      (if length (discovered E W1) \<noteq> n_evs xp1 then Suc (warnings W1) else warnings W1)"
    using w by (simp add: warn_def)
  have ua: "uu_xprobe_attach E ?xp2 W1 = Inr (0, ?xp2\<lparr>evfds := Some a'\<rparr>, W')"
    using uu_attach_some [OF assms(4), of ?xp2 ?a] loop by simp
  have res: "xprobe_attach E xp W = Inr (0, xp1\<lparr>evfds := Some a'\<rparr>, W')"
    using xprobe_attach_unfold [OF assms(1,2,3)] ua by simp
  have filled: "\<forall>j. j < length (discovered E W1) \<longrightarrow>
              0 \<le> a' ! j \<and> a' ! j \<in> set (openfds W') \<and>
              (\<exists>W''. a' ! j =
                 perf_event_attach E W'' (tracepath E @ ''events/'' @ discovered E W1 ! j))"
  proof (intro allI impI)
    fix j assume j: "j < length (discovered E W1)"
    then have "0 \<le> j \<and> j < 0 + length ?gl" by simp
    with all have "0 \<le> a' ! j \<and> a' ! j \<in> set (openfds W') \<and>
        (\<exists>W''. a' ! j = perf_event_attach E W'' (?gl ! (j - 0)))" by simp
    moreover have "?gl ! (j - 0) = tracepath E @ ''events/'' @ discovered E W1 ! j"
      using j by simp
    ultimately show "0 \<le> a' ! j \<and> a' ! j \<in> set (openfds W') \<and>
              (\<exists>W''. a' ! j =
                 perf_event_attach E W'' (tracepath E @ ''events/'' @ discovered E W1 ! j))"
      by simp
  qed
  have zeros: "\<forall>j. length (discovered E W1) \<le> j \<and> j < length a' \<longrightarrow> a' ! j = 0"
    using keep len by (simp add: xcalloc_nth)
  have c: "xprobe_attach E xp W = Inr (0, xp1\<lparr>evfds := Some a'\<rparr>, W') \<and>
           warnings W' =
             (if length (discovered E W1) \<noteq> n_evs xp1 then Suc (warnings W1) else warnings W1) \<and>
           evdir W' = evdir W1 \<and>
           length a' = length (xcalloc (n_evs xp1) (sizeof_ptr (abi E))) \<and>
           (\<forall>j. j < length (discovered E W1) \<longrightarrow>
              0 \<le> a' ! j \<and> a' ! j \<in> set (openfds W') \<and>
              (\<exists>W''. a' ! j =
                 perf_event_attach E W'' (tracepath E @ ''events/'' @ discovered E W1 ! j))) \<and>
           (\<forall>j. length (discovered E W1) \<le> j \<and> j < length a' \<longrightarrow> a' ! j = 0)"
    using res w' ev' len filled zeros by (intro conjI)
  show ?thesis by (rule exI2) (rule c)
qed

text \<open>
  With more events than the array has slots and no call of the attach primitive failing,
  the loop writes past the end of the array.
\<close>

lemma attach_overruns:
  assumes "fopen_errno E = 0" and "setvbuf_errno E = 0"
    and "xprobe_create E (xp\<lparr>ctrl := Stream\<rparr>) (W\<lparr>is_open := True, wbuf := []\<rparr>) = Inr (0, xp1, W1)"
    and "length (xcalloc (n_evs xp1) (sizeof_ptr (abi E))) < length (discovered E W1)"
    and "\<forall>W p. 0 \<le> perf_event_attach E W p"
  shows "xprobe_attach E xp W = Inl OutOfBounds"
proof -
  let ?a = "xcalloc (n_evs xp1) (sizeof_ptr (abi E))"
  let ?xp2 = "xp1\<lparr>evfds := Some ?a\<rparr>"
  let ?gl = "map (\<lambda>n. tracepath E @ ''events/'' @ n) (discovered E W1)"
  let ?Ww = "if length (discovered E W1) \<noteq> n_evs xp1 then warn W1 else W1"
  from assms(4) have ne: "discovered E W1 \<noteq> []" by auto
  have "attach_loop E ?gl 0 ?a ?Ww = Inl OutOfBounds"
    using assms(4,5) by (intro attach_loop_overflow) simp_all
  then have "uu_xprobe_attach E ?xp2 W1 = Inl OutOfBounds"
    using uu_attach_some [OF ne, of ?xp2 ?a] by simp
  then show ?thesis using xprobe_attach_unfold [OF assms(1,2,3)] by simp
qed

text \<open>
  C10 fails on the code where a pointer has 8 bytes. \<open>xcalloc\<close> is given the size of
  the pointer \<open>evfds\<close>, not that of an \<open>int\<close>, so the array of one created definition
  has two slots: attaching the literal target \<open>foo\<close> while the directory holds an older
  entry with the prefix finds two events, the second write of the loop lands inside the
  array, and attach returns 0 with both handles. The loop leaves the array only with a
  third event. Where a pointer has 4 bytes the array has one slot and the second write is
  outside it.
\<close>

theorem handle_array_sized_by_pointer:
  "map_sum id (\<lambda>(e, xp, W). (e, n_evs xp, evfds xp, warnings W))
     (xprobe_attach E0 (xp0 ''foo'') W_old) = Inr (0, 1, Some [3, 4], 1) \<and>
   xprobe_attach E0 (xp0 ''foo'') W_old2 = Inl OutOfBounds \<and>
   xprobe_attach (E0\<lparr>abi := ILP32\<rparr>) (xp0 ''foo'') W_old = Inl OutOfBounds"
  by (simp add: run_defs E0_def xp0_def W0_def W_old_def W_old2_def)

text \<open>
  C5, as amended. When \<open>glob\<close> finds no event, \<open>__xprobe_attach\<close> and
  \<open>__xprobe_delete_all\<close> return \<open>-EINVAL\<close> and warn about nothing. When it finds some
  events, their number differs from \<open>n_evs\<close> in either direction, they fit the handle
  array and no attach fails, \<open>xprobe_attach\<close> warns once and returns 0; the handle of
  every event found, in the order of \<open>glob\<close>, is open and in its slot, and the other
  slots are 0. When the number found differs from \<open>n_evs\<close> in either direction,
  \<open>xprobe_detach\<close> on an attached probe warns once and goes on with the events found:
  it returns 0 exactly when the control file refuses no write, having then written the
  delete directive of every event found, after which none with the prefix is left; a
  result other than 0 comes with the directives of the first events found written; and
  the result is 0 whenever the kernel honours delete directives.
\<close>

theorem count_mismatch_tolerated:
  "(discovered E W = [] \<longrightarrow>
      uu_xprobe_attach E xp W = Inr (- EINVAL, xp, W) \<and>
      uu_xprobe_delete_all E xp W = Inr (- EINVAL, W)) \<and>
   (fopen_errno E = 0 \<and> setvbuf_errno E = 0 \<and>
    xprobe_create E (xpa\<lparr>ctrl := Stream\<rparr>) (Wa\<lparr>is_open := True, wbuf := []\<rparr>) =
      Inr (0, xp1, W1) \<and>
    discovered E W1 \<noteq> [] \<and> length (discovered E W1) \<noteq> n_evs xp1 \<and>
    length (discovered E W1) \<le> length (xcalloc (n_evs xp1) (sizeof_ptr (abi E))) \<and>
    (\<forall>W p. 0 \<le> perf_event_attach E W p) \<longrightarrow>
      (\<exists>a' W'. xprobe_attach E xpa Wa = Inr (0, xp1\<lparr>evfds := Some a'\<rparr>, W') \<and>
         warnings W' = Suc (warnings W1) \<and> evdir W' = evdir W1 \<and>
         length a' = length (xcalloc (n_evs xp1) (sizeof_ptr (abi E))) \<and>
         (\<forall>j. j < length (discovered E W1) \<longrightarrow>
            0 \<le> a' ! j \<and> a' ! j \<in> set (openfds W') \<and>
            (\<exists>W''. a' ! j =
               perf_event_attach E W'' (tracepath E @ ''events/'' @ discovered E W1 ! j))) \<and>
         (\<forall>j. length (discovered E W1) \<le> j \<and> j < length a' \<longrightarrow> a' ! j = 0))) \<and>
   (ctrl xpd = Stream \<and> is_open Wd \<and> wbuf Wd = [] \<and> evfds xpd = Some a \<and>
    n_evs xpd \<le> length a \<and> nlfree (evdir Wd) \<and>
    discovered E Wd \<noteq> [] \<and> length (discovered E Wd) \<noteq> n_evs xpd \<longrightarrow>
      (\<exists>r W'. xprobe_detach E xpd Wd = Inr (r, xpd\<lparr>evfds := None\<rparr>, W') \<and>
         \<not> is_open W' \<and> warnings W' = Suc (warnings Wd) \<and>
         (r = 0 \<longleftrightarrow> wfail W' = wfail Wd) \<and>
         (r = 0 \<longrightarrow>
            concat (written W') =
              concat (written Wd) @ concat (map delete_line (discovered E Wd)) \<and>
            discovered E W' = []) \<and>
         (r \<noteq> 0 \<longrightarrow>
            (\<exists>ns1 ns2. discovered E Wd = ns1 @ ns2 \<and> ns1 \<noteq> [] \<and>
               concat (written W') = concat (written Wd) @ concat (map delete_line ns1))) \<and>
         ((\<forall>W n. kreject E W (delete_cmd n) = 0) \<longrightarrow> r = 0)))"
proof (intro conjI impI)
  assume "discovered E W = []"
  then show "uu_xprobe_attach E xp W = Inr (- EINVAL, xp, W)"
    and "uu_xprobe_delete_all E xp W = Inr (- EINVAL, W)"
    by (simp_all add: uu_attach_none delete_all_none)
next
  assume h: "fopen_errno E = 0 \<and> setvbuf_errno E = 0 \<and>
    xprobe_create E (xpa\<lparr>ctrl := Stream\<rparr>) (Wa\<lparr>is_open := True, wbuf := []\<rparr>) =
      Inr (0, xp1, W1) \<and>
    discovered E W1 \<noteq> [] \<and> length (discovered E W1) \<noteq> n_evs xp1 \<and>
    length (discovered E W1) \<le> length (xcalloc (n_evs xp1) (sizeof_ptr (abi E))) \<and>
    (\<forall>W p. 0 \<le> perf_event_attach E W p)"
  from h have fo: "fopen_errno E = 0" by (elim conjE)
  from h have sv: "setvbuf_errno E = 0" by (elim conjE)
  from h have cr: "xprobe_create E (xpa\<lparr>ctrl := Stream\<rparr>) (Wa\<lparr>is_open := True, wbuf := []\<rparr>) =
      Inr (0, xp1, W1)" by (elim conjE)
  from h have ne: "discovered E W1 \<noteq> []" by (elim conjE)
  from h have neq: "length (discovered E W1) \<noteq> n_evs xp1" by (elim conjE)
  from h have fit: "length (discovered E W1) \<le> length (xcalloc (n_evs xp1) (sizeof_ptr (abi E)))"
    by (elim conjE)
  from h have ok: "\<forall>W p. 0 \<le> perf_event_attach E W p" by (elim conjE)
  from attach_all_succeed [OF fo sv cr ne fit ok]
  obtain a' W' where big: "xprobe_attach E xpa Wa = Inr (0, xp1\<lparr>evfds := Some a'\<rparr>, W') \<and>
           warnings W' =
             (if length (discovered E W1) \<noteq> n_evs xp1 then Suc (warnings W1) else warnings W1) \<and>
           evdir W' = evdir W1 \<and>
           length a' = length (xcalloc (n_evs xp1) (sizeof_ptr (abi E))) \<and>
           (\<forall>j. j < length (discovered E W1) \<longrightarrow>
              0 \<le> a' ! j \<and> a' ! j \<in> set (openfds W') \<and>
              (\<exists>W''. a' ! j =
                 perf_event_attach E W'' (tracepath E @ ''events/'' @ discovered E W1 ! j))) \<and>
           (\<forall>j. length (discovered E W1) \<le> j \<and> j < length a' \<longrightarrow> a' ! j = 0)"
    by (elim exE) (erule that)
  from big have res: "xprobe_attach E xpa Wa = Inr (0, xp1\<lparr>evfds := Some a'\<rparr>, W')"
    by (elim conjE)
  from big have "warnings W' =
      (if length (discovered E W1) \<noteq> n_evs xp1 then Suc (warnings W1) else warnings W1)"
    by (elim conjE)
  with neq have w: "warnings W' = Suc (warnings W1)" by simp
  from big have ev: "evdir W' = evdir W1" by (elim conjE)
  from big have len: "length a' = length (xcalloc (n_evs xp1) (sizeof_ptr (abi E)))"
    by (elim conjE)
  from big have filled: "\<forall>j. j < length (discovered E W1) \<longrightarrow>
              0 \<le> a' ! j \<and> a' ! j \<in> set (openfds W') \<and>
              (\<exists>W''. a' ! j =
                 perf_event_attach E W'' (tracepath E @ ''events/'' @ discovered E W1 ! j))"
    by (elim conjE)
  from big have zeros: "\<forall>j. length (discovered E W1) \<le> j \<and> j < length a' \<longrightarrow> a' ! j = 0"
    by (elim conjE)
  have c: "xprobe_attach E xpa Wa = Inr (0, xp1\<lparr>evfds := Some a'\<rparr>, W') \<and>
         warnings W' = Suc (warnings W1) \<and> evdir W' = evdir W1 \<and>
         length a' = length (xcalloc (n_evs xp1) (sizeof_ptr (abi E))) \<and>
         (\<forall>j. j < length (discovered E W1) \<longrightarrow>
            0 \<le> a' ! j \<and> a' ! j \<in> set (openfds W') \<and>
            (\<exists>W''. a' ! j =
               perf_event_attach E W'' (tracepath E @ ''events/'' @ discovered E W1 ! j))) \<and>
         (\<forall>j. length (discovered E W1) \<le> j \<and> j < length a' \<longrightarrow> a' ! j = 0)"
    using res w ev len filled zeros by (intro conjI)
  show "\<exists>a' W'. xprobe_attach E xpa Wa = Inr (0, xp1\<lparr>evfds := Some a'\<rparr>, W') \<and>
         warnings W' = Suc (warnings W1) \<and> evdir W' = evdir W1 \<and>
         length a' = length (xcalloc (n_evs xp1) (sizeof_ptr (abi E))) \<and>
         (\<forall>j. j < length (discovered E W1) \<longrightarrow>
            0 \<le> a' ! j \<and> a' ! j \<in> set (openfds W') \<and>
            (\<exists>W''. a' ! j =
               perf_event_attach E W'' (tracepath E @ ''events/'' @ discovered E W1 ! j))) \<and>
         (\<forall>j. length (discovered E W1) \<le> j \<and> j < length a' \<longrightarrow> a' ! j = 0)"
    by (rule exI2) (rule c)
next
  assume h: "ctrl xpd = Stream \<and> is_open Wd \<and> wbuf Wd = [] \<and> evfds xpd = Some a \<and>
    n_evs xpd \<le> length a \<and> nlfree (evdir Wd) \<and>
    discovered E Wd \<noteq> [] \<and> length (discovered E Wd) \<noteq> n_evs xpd"
  from h have c1: "ctrl xpd = Stream" by (elim conjE)
  from h have o: "is_open Wd" by (elim conjE)
  from h have b: "wbuf Wd = []" by (elim conjE)
  from h have ev: "evfds xpd = Some a" by (elim conjE)
  from h have n: "n_evs xpd \<le> length a" by (elim conjE)
  from h have nl: "nlfree (evdir Wd)" by (elim conjE)
  from h have ne: "discovered E Wd \<noteq> []" by (elim conjE)
  from h have neq: "length (discovered E Wd) \<noteq> n_evs xpd" by (elim conjE)
  let ?W1 = "Wd\<lparr>openfds := filter (\<lambda>fd. fd \<notin> set (take (n_evs xpd) a)) (openfds Wd)\<rparr>"
  from detach_full [OF c1 o b ev n nl, of E]
  obtain e W2 en W3 ns1 ns2 where big:
    "uu_xprobe_delete_all E (xpd\<lparr>evfds := None\<rparr>) ?W1 = Inr (e, W2) \<and>
     do_flush E W2 = (en, W3) \<and>
     xprobe_detach E xpd Wd =
       Inr (if e \<noteq> 0 then e else - int en, xpd\<lparr>evfds := None\<rparr>, W3\<lparr>is_open := False\<rparr>) \<and>
     wbuf W3 = [] \<and>
     warnings W3 =
       (if discovered E Wd \<noteq> [] \<and> length (discovered E Wd) \<noteq> n_evs xpd
        then Suc (warnings Wd) else warnings Wd) \<and>
     openfds W3 = filter (\<lambda>fd. fd \<notin> set (take (n_evs xpd) a)) (openfds Wd) \<and>
     discovered E Wd = ns1 @ ns2 \<and>
     concat (written W3) = concat (written Wd) @ concat (map delete_line ns1) \<and>
     (discovered E Wd = [] \<and> e = - EINVAL \<and> en = 0 \<and> wfail W3 = wfail Wd \<or>
      discovered E Wd \<noteq> [] \<and> ns1 \<noteq> [] \<and>
        (e = 0 \<and> ns2 = [] \<and> wfail W3 = (if en \<noteq> 0 then Suc (wfail Wd) else wfail Wd) \<or>
         e = EOF \<and> en = 0 \<and> wfail W3 = Suc (wfail Wd))) \<and>
     (e = 0 \<and> en = 0 \<longrightarrow> discovered E W3 = []) \<and>
     ((\<forall>W n. kreject E W (delete_cmd n) = 0) \<and> discovered E Wd \<noteq> [] \<longrightarrow> e = 0 \<and> en = 0)"
    by (elim exE) (erule that)
  define r where "r = (if e \<noteq> 0 then e else - int en)"
  define W' where "W' = W3\<lparr>is_open := False\<rparr>"
  from big have "xprobe_detach E xpd Wd =
       Inr (if e \<noteq> 0 then e else - int en, xpd\<lparr>evfds := None\<rparr>, W3\<lparr>is_open := False\<rparr>)"
    by (elim conjE)
  then have res: "xprobe_detach E xpd Wd = Inr (r, xpd\<lparr>evfds := None\<rparr>, W')"
    unfolding r_def W'_def .
  have cl: "\<not> is_open W'" by (simp add: W'_def)
  from big have "warnings W3 =
       (if discovered E Wd \<noteq> [] \<and> length (discovered E Wd) \<noteq> n_evs xpd
        then Suc (warnings Wd) else warnings Wd)" by (elim conjE)
  with ne neq have wn: "warnings W' = Suc (warnings Wd)" by (simp add: W'_def)
  from big have split: "discovered E Wd = ns1 @ ns2" by (elim conjE)
  from big have "concat (written W3) = concat (written Wd) @ concat (map delete_line ns1)"
    by (elim conjE)
  then have wr: "concat (written W') = concat (written Wd) @ concat (map delete_line ns1)"
    by (simp add: W'_def)
  from big have "discovered E Wd = [] \<and> e = - EINVAL \<and> en = 0 \<and> wfail W3 = wfail Wd \<or>
      discovered E Wd \<noteq> [] \<and> ns1 \<noteq> [] \<and>
        (e = 0 \<and> ns2 = [] \<and> wfail W3 = (if en \<noteq> 0 then Suc (wfail Wd) else wfail Wd) \<or>
         e = EOF \<and> en = 0 \<and> wfail W3 = Suc (wfail Wd))" by (elim conjE)
  with ne have ne1: "ns1 \<noteq> []"
    and cs: "e = 0 \<and> ns2 = [] \<and> wfail W3 = (if en \<noteq> 0 then Suc (wfail Wd) else wfail Wd) \<or>
         e = EOF \<and> en = 0 \<and> wfail W3 = Suc (wfail Wd)" by simp_all
  from big have clr: "e = 0 \<and> en = 0 \<longrightarrow> discovered E W3 = []" by (elim conjE)
  from big have hon3: "(\<forall>W n. kreject E W (delete_cmd n) = 0) \<and> discovered E Wd \<noteq> [] \<longrightarrow>
     e = 0 \<and> en = 0" by (elim conjE)
  have EOF0: "EOF \<noteq> 0" by (simp add: EOF_def)
  have d3: "discovered E W' = discovered E W3" by (simp add: W'_def discovered_def)
  have r0: "r = 0 \<longleftrightarrow> e = 0 \<and> en = 0" by (simp add: r_def)
  have iff: "r = 0 \<longleftrightarrow> wfail W' = wfail Wd"
    using cs EOF0 r0 by (auto simp: W'_def)
  have alldone: "r = 0 \<longrightarrow>
            concat (written W') =
              concat (written Wd) @ concat (map delete_line (discovered E Wd)) \<and>
            discovered E W' = []"
  proof
    assume "r = 0"
    with r0 have z: "e = 0" "en = 0" by simp_all
    with cs EOF0 have "ns2 = []" by auto
    with split wr have "concat (written W') =
              concat (written Wd) @ concat (map delete_line (discovered E Wd))" by simp
    moreover from clr z d3 have "discovered E W' = []" by simp
    ultimately show "concat (written W') =
              concat (written Wd) @ concat (map delete_line (discovered E Wd)) \<and>
            discovered E W' = []" by (rule conjI)
  qed
  have part: "r \<noteq> 0 \<longrightarrow>
            (\<exists>ns1 ns2. discovered E Wd = ns1 @ ns2 \<and> ns1 \<noteq> [] \<and>
               concat (written W') = concat (written Wd) @ concat (map delete_line ns1))"
  proof
    assume "r \<noteq> 0"
    have c: "discovered E Wd = ns1 @ ns2 \<and> ns1 \<noteq> [] \<and>
               concat (written W') = concat (written Wd) @ concat (map delete_line ns1)"
      using split ne1 wr by (intro conjI)
    show "\<exists>ns1 ns2. discovered E Wd = ns1 @ ns2 \<and> ns1 \<noteq> [] \<and>
               concat (written W') = concat (written Wd) @ concat (map delete_line ns1)"
      by (rule exI2) (rule c)
  qed
  have hon_r: "(\<forall>W n. kreject E W (delete_cmd n) = 0) \<longrightarrow> r = 0"
  proof
    assume hk: "\<forall>W n. kreject E W (delete_cmd n) = 0"
    from hk ne have "(\<forall>W n. kreject E W (delete_cmd n) = 0) \<and> discovered E Wd \<noteq> []"
      by (rule conjI)
    with hon3 have "e = 0 \<and> en = 0" by (rule mp)
    with r0 show "r = 0" by simp
  qed
  have c: "xprobe_detach E xpd Wd = Inr (r, xpd\<lparr>evfds := None\<rparr>, W') \<and>
         \<not> is_open W' \<and> warnings W' = Suc (warnings Wd) \<and>
         (r = 0 \<longleftrightarrow> wfail W' = wfail Wd) \<and>
         (r = 0 \<longrightarrow>
            concat (written W') =
              concat (written Wd) @ concat (map delete_line (discovered E Wd)) \<and>
            discovered E W' = []) \<and>
         (r \<noteq> 0 \<longrightarrow>
            (\<exists>ns1 ns2. discovered E Wd = ns1 @ ns2 \<and> ns1 \<noteq> [] \<and>
               concat (written W') = concat (written Wd) @ concat (map delete_line ns1))) \<and>
         ((\<forall>W n. kreject E W (delete_cmd n) = 0) \<longrightarrow> r = 0)"
    using res cl wn iff alldone part hon_r by (intro conjI)
  show "\<exists>r W'. xprobe_detach E xpd Wd = Inr (r, xpd\<lparr>evfds := None\<rparr>, W') \<and>
         \<not> is_open W' \<and> warnings W' = Suc (warnings Wd) \<and>
         (r = 0 \<longleftrightarrow> wfail W' = wfail Wd) \<and>
         (r = 0 \<longrightarrow>
            concat (written W') =
              concat (written Wd) @ concat (map delete_line (discovered E Wd)) \<and>
            discovered E W' = []) \<and>
         (r \<noteq> 0 \<longrightarrow>
            (\<exists>ns1 ns2. discovered E Wd = ns1 @ ns2 \<and> ns1 \<noteq> [] \<and>
               concat (written W') = concat (written Wd) @ concat (map delete_line ns1))) \<and>
         ((\<forall>W n. kreject E W (delete_cmd n) = 0) \<longrightarrow> r = 0)"
    by (rule exI2) (rule c)
qed

text \<open>
  Against C5 as stated: the kernel refuses both directives of the pattern \<open>foo*\<close>, two
  were submitted and none is discovered; attach returns \<open>-EINVAL\<close>, and the only two
  warnings are those of the refused directives. And a literal target attached while the
  directory holds two older entries with the prefix finds three events for an array of
  two slots: the loop leaves the array.
\<close>

theorem nothing_discovered_is_an_error:
  "map_sum id fst (xprobe_attach E_rej (xp0 ''foo*'') W0) = Inr (- 22) \<and>
   map_sum id (n_evs \<circ> fst \<circ> snd) (xprobe_attach E_rej (xp0 ''foo*'') W0) = Inr 2 \<and>
   map_sum id (warnings \<circ> snd \<circ> snd) (xprobe_attach E_rej (xp0 ''foo*'') W0) = Inr 2 \<and>
   xprobe_attach E0 (xp0 ''foo'') W_old2 = Inl OutOfBounds"
  by (simp add: run_defs E_rej_def E0_def xp0_def W0_def W_old2_def)

text \<open>
  Five directives submitted, the third refused by the kernel: attach goes on with the
  four events found, and the detach that follows deletes the four.
\<close>

lemma four_of_five:
  "xprobe_attach E_4of5 (xp0 ''a?'') W0 =
     Inr (0, xp_five\<lparr>evfds := Some [3, 4, 5, 6, 0, 0, 0, 0, 0, 0]\<rparr>,
          W_four\<lparr>openfds := [6, 5, 4, 3], warnings := 2\<rparr>)"
  by (simp add: run_defs E_4of5_def E0_def xp0_def W0_def xp_five_def W_four_def four_names_def)

theorem count_mismatch_tolerated_witness:
  "discovered E_4of5 (W_events []) = [] \<and>
   uu_xprobe_attach E_4of5 xp_five (W_events []) = Inr (- EINVAL, xp_five, W_events []) \<and>
   uu_xprobe_delete_all E_4of5 xp_five (W_events []) = Inr (- EINVAL, W_events []) \<and>
   (fopen_errno E_4of5 = 0 \<and> setvbuf_errno E_4of5 = 0 \<and>
    xprobe_create E_4of5 ((xp0 ''a?'')\<lparr>ctrl := Stream\<rparr>) (W0\<lparr>is_open := True, wbuf := []\<rparr>) =
      Inr (0, xp_five, W_four) \<and>
    discovered E_4of5 W_four \<noteq> [] \<and> length (discovered E_4of5 W_four) \<noteq> n_evs xp_five \<and>
    length (discovered E_4of5 W_four) \<le>
      length (xcalloc (n_evs xp_five) (sizeof_ptr (abi E_4of5))) \<and>
    (\<forall>W p. 0 \<le> perf_event_attach E_4of5 W p)) \<and>
   (\<exists>a' W'. xprobe_attach E_4of5 (xp0 ''a?'') W0 = Inr (0, xp_five\<lparr>evfds := Some a'\<rparr>, W') \<and>
      warnings W' = Suc (warnings W_four) \<and> evdir W' = evdir W_four \<and>
      length a' = length (xcalloc (n_evs xp_five) (sizeof_ptr (abi E_4of5))) \<and>
      (\<forall>j. j < length (discovered E_4of5 W_four) \<longrightarrow>
         0 \<le> a' ! j \<and> a' ! j \<in> set (openfds W') \<and>
         (\<exists>W''. a' ! j =
            perf_event_attach E_4of5 W''
              (tracepath E_4of5 @ ''events/'' @ discovered E_4of5 W_four ! j))) \<and>
      (\<forall>j. length (discovered E_4of5 W_four) \<le> j \<and> j < length a' \<longrightarrow> a' ! j = 0)) \<and>
   (ctrl (xp_five\<lparr>evfds := Some [3, 4, 5, 6, 0, 0, 0, 0, 0, 0]\<rparr>) = Stream \<and>
    is_open (W_four\<lparr>openfds := [6, 5, 4, 3], warnings := 2\<rparr>) \<and>
    wbuf (W_four\<lparr>openfds := [6, 5, 4, 3], warnings := 2\<rparr>) = [] \<and>
    evfds (xp_five\<lparr>evfds := Some [3, 4, 5, 6, 0, 0, 0, 0, 0, 0]\<rparr>) =
      Some [3, 4, 5, 6, 0, 0, 0, 0, 0, 0] \<and>
    n_evs (xp_five\<lparr>evfds := Some [3, 4, 5, 6, 0, 0, 0, 0, 0, 0]\<rparr>) \<le>
      length [3, 4, 5, 6, 0, 0, 0, 0, 0, 0 :: int] \<and>
    nlfree (evdir (W_four\<lparr>openfds := [6, 5, 4, 3], warnings := 2\<rparr>)) \<and>
    discovered E_4of5 (W_four\<lparr>openfds := [6, 5, 4, 3], warnings := 2\<rparr>) \<noteq> [] \<and>
    length (discovered E_4of5 (W_four\<lparr>openfds := [6, 5, 4, 3], warnings := 2\<rparr>)) \<noteq>
      n_evs (xp_five\<lparr>evfds := Some [3, 4, 5, 6, 0, 0, 0, 0, 0, 0]\<rparr>)) \<and>
   (\<exists>r W'. xprobe_detach E_4of5 (xp_five\<lparr>evfds := Some [3, 4, 5, 6, 0, 0, 0, 0, 0, 0]\<rparr>)
              (W_four\<lparr>openfds := [6, 5, 4, 3], warnings := 2\<rparr>) =
            Inr (r, xp_five\<lparr>evfds := Some [3, 4, 5, 6, 0, 0, 0, 0, 0, 0]\<rparr>\<lparr>evfds := None\<rparr>, W') \<and>
      \<not> is_open W' \<and>
      warnings W' = Suc (warnings (W_four\<lparr>openfds := [6, 5, 4, 3], warnings := 2\<rparr>)) \<and>
      (r = 0 \<longleftrightarrow> wfail W' = wfail (W_four\<lparr>openfds := [6, 5, 4, 3], warnings := 2\<rparr>)) \<and>
      (r = 0 \<longrightarrow>
         concat (written W') =
           concat (written (W_four\<lparr>openfds := [6, 5, 4, 3], warnings := 2\<rparr>)) @
           concat (map delete_line
             (discovered E_4of5 (W_four\<lparr>openfds := [6, 5, 4, 3], warnings := 2\<rparr>))) \<and>
         discovered E_4of5 W' = []) \<and>
      (r \<noteq> 0 \<longrightarrow>
         (\<exists>ns1 ns2. discovered E_4of5 (W_four\<lparr>openfds := [6, 5, 4, 3], warnings := 2\<rparr>) =
              ns1 @ ns2 \<and> ns1 \<noteq> [] \<and>
            concat (written W') =
              concat (written (W_four\<lparr>openfds := [6, 5, 4, 3], warnings := 2\<rparr>)) @
              concat (map delete_line ns1))) \<and>
      ((\<forall>W n. kreject E_4of5 W (delete_cmd n) = 0) \<longrightarrow> r = 0)) \<and>
   map_sum id (evfds \<circ> fst \<circ> snd) (xprobe_attach E_4of5 (xp0 ''a?'') W0) =
     Inr (Some [3, 4, 5, 6, 0, 0, 0, 0, 0, 0]) \<and>
   map_sum id fst (xprobe_attach E_4of5 (xp0 ''a?'') W0) = Inr 0 \<and>
   map_sum id (\<lambda>(r, xp, W). (r, evdir W, openfds W, warnings W))
     (xprobe_detach E_4of5 (xp_five\<lparr>evfds := Some [3, 4, 5, 6, 0, 0, 0, 0, 0, 0]\<rparr>)
        (W_four\<lparr>openfds := [6, 5, 4, 3], warnings := 2\<rparr>)) = Inr (0, [], [], 3)"
proof -
  let ?xp = "xp_five\<lparr>evfds := Some [3, 4, 5, 6, 0, 0, 0, 0, 0, 0]\<rparr>"
  let ?W = "W_four\<lparr>openfds := [6, 5, 4, 3], warnings := 2\<rparr>"
  note t = count_mismatch_tolerated [where E = E_4of5 and W = "W_events []" and xp = xp_five
      and xpa = "xp0 ''a?''" and Wa = W0 and ?xp1.0 = xp_five and ?W1.0 = W_four
      and xpd = ?xp and Wd = ?W and a = "[3, 4, 5, 6, 0, 0, 0, 0, 0, 0]"]
  have pre: "ev_prefix E_4of5 = ''ply/p55d0_''"
    by (simp add: ev_prefix_def E_4of5_def E0_def hex.simps)
  have d0: "discovered E_4of5 (W_events []) = []"
    by (simp add: discovered_def W_events_def W0_def)
  from t have "discovered E_4of5 (W_events []) = [] \<longrightarrow>
      uu_xprobe_attach E_4of5 xp_five (W_events []) = Inr (- EINVAL, xp_five, W_events []) \<and>
      uu_xprobe_delete_all E_4of5 xp_five (W_events []) = Inr (- EINVAL, W_events [])"
    by (elim conjE)
  from this d0 have c1: "uu_xprobe_attach E_4of5 xp_five (W_events []) =
        Inr (- EINVAL, xp_five, W_events []) \<and>
      uu_xprobe_delete_all E_4of5 xp_five (W_events []) = Inr (- EINVAL, W_events [])"
    by (rule mp)
  have d: "discovered E_4of5 W_four = four_names" "discovered E_4of5 ?W = four_names"
    by (simp_all add: discovered_def W_four_def four_names_def ev_match_def pre)
  have cr: "xprobe_create E_4of5 ((xp0 ''a?'')\<lparr>ctrl := Stream\<rparr>)
              (W0\<lparr>is_open := True, wbuf := []\<rparr>) = Inr (0, xp_five, W_four)"
    by (simp add: run_defs E_4of5_def E0_def xp0_def W0_def xp_five_def W_four_def
        four_names_def)
  have h2: "fopen_errno E_4of5 = 0 \<and> setvbuf_errno E_4of5 = 0 \<and>
    xprobe_create E_4of5 ((xp0 ''a?'')\<lparr>ctrl := Stream\<rparr>) (W0\<lparr>is_open := True, wbuf := []\<rparr>) =
      Inr (0, xp_five, W_four) \<and>
    discovered E_4of5 W_four \<noteq> [] \<and> length (discovered E_4of5 W_four) \<noteq> n_evs xp_five \<and>
    length (discovered E_4of5 W_four) \<le>
      length (xcalloc (n_evs xp_five) (sizeof_ptr (abi E_4of5))) \<and>
    (\<forall>W p. 0 \<le> perf_event_attach E_4of5 W p)"
    unfolding d cr
    by (simp add: four_names_def xp_five_def E_4of5_def E0_def xcalloc_def sizeof_int_def)
  from t have "fopen_errno E_4of5 = 0 \<and> setvbuf_errno E_4of5 = 0 \<and>
    xprobe_create E_4of5 ((xp0 ''a?'')\<lparr>ctrl := Stream\<rparr>) (W0\<lparr>is_open := True, wbuf := []\<rparr>) =
      Inr (0, xp_five, W_four) \<and>
    discovered E_4of5 W_four \<noteq> [] \<and> length (discovered E_4of5 W_four) \<noteq> n_evs xp_five \<and>
    length (discovered E_4of5 W_four) \<le>
      length (xcalloc (n_evs xp_five) (sizeof_ptr (abi E_4of5))) \<and>
    (\<forall>W p. 0 \<le> perf_event_attach E_4of5 W p) \<longrightarrow>
   (\<exists>a' W'. xprobe_attach E_4of5 (xp0 ''a?'') W0 = Inr (0, xp_five\<lparr>evfds := Some a'\<rparr>, W') \<and>
      warnings W' = Suc (warnings W_four) \<and> evdir W' = evdir W_four \<and>
      length a' = length (xcalloc (n_evs xp_five) (sizeof_ptr (abi E_4of5))) \<and>
      (\<forall>j. j < length (discovered E_4of5 W_four) \<longrightarrow>
         0 \<le> a' ! j \<and> a' ! j \<in> set (openfds W') \<and>
         (\<exists>W''. a' ! j =
            perf_event_attach E_4of5 W''
              (tracepath E_4of5 @ ''events/'' @ discovered E_4of5 W_four ! j))) \<and>
      (\<forall>j. length (discovered E_4of5 W_four) \<le> j \<and> j < length a' \<longrightarrow> a' ! j = 0))"
    by (elim conjE)
  from this h2 have c2: "\<exists>a' W'. xprobe_attach E_4of5 (xp0 ''a?'') W0 =
        Inr (0, xp_five\<lparr>evfds := Some a'\<rparr>, W') \<and>
      warnings W' = Suc (warnings W_four) \<and> evdir W' = evdir W_four \<and>
      length a' = length (xcalloc (n_evs xp_five) (sizeof_ptr (abi E_4of5))) \<and>
      (\<forall>j. j < length (discovered E_4of5 W_four) \<longrightarrow>
         0 \<le> a' ! j \<and> a' ! j \<in> set (openfds W') \<and>
         (\<exists>W''. a' ! j =
            perf_event_attach E_4of5 W''
              (tracepath E_4of5 @ ''events/'' @ discovered E_4of5 W_four ! j))) \<and>
      (\<forall>j. length (discovered E_4of5 W_four) \<le> j \<and> j < length a' \<longrightarrow> a' ! j = 0)"
    by (rule mp)
  have h3: "ctrl ?xp = Stream \<and> is_open ?W \<and> wbuf ?W = [] \<and>
    evfds ?xp = Some [3, 4, 5, 6, 0, 0, 0, 0, 0, 0] \<and>
    n_evs ?xp \<le> length [3, 4, 5, 6, 0, 0, 0, 0, 0, 0 :: int] \<and>
    nlfree (evdir ?W) \<and> discovered E_4of5 ?W \<noteq> [] \<and>
    length (discovered E_4of5 ?W) \<noteq> n_evs ?xp"
    unfolding d by (simp add: four_names_def xp_five_def W_four_def nlfree_def)
  from t have "ctrl ?xp = Stream \<and> is_open ?W \<and> wbuf ?W = [] \<and>
    evfds ?xp = Some [3, 4, 5, 6, 0, 0, 0, 0, 0, 0] \<and>
    n_evs ?xp \<le> length [3, 4, 5, 6, 0, 0, 0, 0, 0, 0 :: int] \<and>
    nlfree (evdir ?W) \<and> discovered E_4of5 ?W \<noteq> [] \<and>
    length (discovered E_4of5 ?W) \<noteq> n_evs ?xp \<longrightarrow>
   (\<exists>r W'. xprobe_detach E_4of5 ?xp ?W = Inr (r, ?xp\<lparr>evfds := None\<rparr>, W') \<and>
      \<not> is_open W' \<and> warnings W' = Suc (warnings ?W) \<and>
      (r = 0 \<longleftrightarrow> wfail W' = wfail ?W) \<and>
      (r = 0 \<longrightarrow>
         concat (written W') =
           concat (written ?W) @ concat (map delete_line (discovered E_4of5 ?W)) \<and>
         discovered E_4of5 W' = []) \<and>
      (r \<noteq> 0 \<longrightarrow>
         (\<exists>ns1 ns2. discovered E_4of5 ?W = ns1 @ ns2 \<and> ns1 \<noteq> [] \<and>
            concat (written W') = concat (written ?W) @ concat (map delete_line ns1))) \<and>
      ((\<forall>W n. kreject E_4of5 W (delete_cmd n) = 0) \<longrightarrow> r = 0))"
    by (elim conjE)
  from this h3 have c3: "\<exists>r W'. xprobe_detach E_4of5 ?xp ?W = Inr (r, ?xp\<lparr>evfds := None\<rparr>, W') \<and>
      \<not> is_open W' \<and> warnings W' = Suc (warnings ?W) \<and>
      (r = 0 \<longleftrightarrow> wfail W' = wfail ?W) \<and>
      (r = 0 \<longrightarrow>
         concat (written W') =
           concat (written ?W) @ concat (map delete_line (discovered E_4of5 ?W)) \<and>
         discovered E_4of5 W' = []) \<and>
      (r \<noteq> 0 \<longrightarrow>
         (\<exists>ns1 ns2. discovered E_4of5 ?W = ns1 @ ns2 \<and> ns1 \<noteq> [] \<and>
            concat (written W') = concat (written ?W) @ concat (map delete_line ns1))) \<and>
      ((\<forall>W n. kreject E_4of5 W (delete_cmd n) = 0) \<longrightarrow> r = 0)"
    by (rule mp)
  have c4: "map_sum id (evfds \<circ> fst \<circ> snd) (xprobe_attach E_4of5 (xp0 ''a?'') W0) =
     Inr (Some [3, 4, 5, 6, 0, 0, 0, 0, 0, 0]) \<and>
   map_sum id fst (xprobe_attach E_4of5 (xp0 ''a?'') W0) = Inr 0"
    by (simp add: four_of_five)
  have c5: "map_sum id (\<lambda>(r, xp, W). (r, evdir W, openfds W, warnings W))
     (xprobe_detach E_4of5 ?xp ?W) = Inr (0, [], [], 3)"
    by (simp add: run_defs E_4of5_def E0_def xp_five_def W_four_def four_names_def)
  from d0 c1 h2 c2 h3 c3 c4 c5 show ?thesis by (intro conjI) (elim conjE, assumption)+
qed

subsection \<open>Creating the definitions\<close>

lemma strpbrk_None: "strpbrk s accept = None \<longleftrightarrow> set s \<inter> set accept = {}"
  by (induction s) (auto simp: strpbrk_def)

lemma create_open_line:
  "is_open W \<Longrightarrow>
   uu_xprobe_create Stream st t W =
     Inr (to_int (length st + 2 * length t + 2), W\<lparr>wbuf := wbuf W @ create_line st t\<rparr>)"
  by (simp add: create_open create_line_def funcname_sanitized)

lemma create_line_nonempty [simp]: "create_line st t \<noteq> []"
  by (simp add: create_line_def)

lemma flush_one_line:
  assumes "wbuf W = []" and "do_flush E (W\<lparr>wbuf := wbuf W @ l\<rparr>) = (r, W2)" and "l \<noteq> []"
  shows "wbuf W2 = [] \<and> written W2 = written W @ [l] \<and> is_open W2 = is_open W \<and>
         openfds W2 = openfds W"
  using do_flush_fields [OF assms(2)] assms(1,3) by simp

lemma create_pattern_loop_written:
  assumes "ctrl xp = Stream" and "is_open W" and "wbuf W = []"
  shows "\<exists>W'. create_pattern_loop E syms xp W =
                 Inr (xp\<lparr>n_evs := n_evs xp + length (filter (fnm E (pattern xp)) syms)\<rparr>, W') \<and>
           written W' = written W @ map (create_line (stem xp)) (filter (fnm E (pattern xp)) syms) \<and>
           wbuf W' = [] \<and> is_open W' \<and> openfds W' = openfds W"
  using assms
proof (induction syms arbitrary: xp W)
  case Nil
  then show ?case by simp
next
  case (Cons sy syms)
  show ?case
  proof (cases "fnm E (pattern xp) sy")
    case False
    with Cons.IH [OF Cons.prems] show ?thesis by simp
  next
    case True
    let ?W1 = "W\<lparr>wbuf := wbuf W @ create_line (stem xp) sy\<rparr>"
    obtain r W2 where fl: "do_flush E ?W1 = (r, W2)" by (cases "do_flush E ?W1")
    note f = flush_one_line [OF Cons.prems(3) fl create_line_nonempty]
    let ?W3 = "if r \<noteq> 0 then warn W2 else W2"
    let ?xp1 = "xp\<lparr>n_evs := Suc (n_evs xp)\<rparr>"
    have w3: "wbuf ?W3 = []" "is_open ?W3" "written ?W3 = written W @ [create_line (stem xp) sy]"
      "openfds ?W3 = openfds W"
      using f Cons.prems by (simp_all add: warn_def)
    have step: "create_pattern_loop E (sy # syms) xp W = create_pattern_loop E syms ?xp1 ?W3"
      using True Cons.prems fl by (simp add: create_open_line fflush_open)
    have "\<exists>W'. create_pattern_loop E syms ?xp1 ?W3 =
                 Inr (?xp1\<lparr>n_evs := n_evs ?xp1 + length (filter (fnm E (pattern ?xp1)) syms)\<rparr>, W') \<and>
           written W' = written ?W3 @ map (create_line (stem ?xp1)) (filter (fnm E (pattern ?xp1)) syms) \<and>
           wbuf W' = [] \<and> is_open W' \<and> openfds W' = openfds ?W3"
      using Cons.prems w3 by (intro Cons.IH) simp_all
    then obtain W' where big: "create_pattern_loop E syms ?xp1 ?W3 =
                 Inr (?xp1\<lparr>n_evs := n_evs ?xp1 + length (filter (fnm E (pattern ?xp1)) syms)\<rparr>, W') \<and>
           written W' = written ?W3 @ map (create_line (stem ?xp1)) (filter (fnm E (pattern ?xp1)) syms) \<and>
           wbuf W' = [] \<and> is_open W' \<and> openfds W' = openfds ?W3"
      by (elim exE) (erule that)
    show ?thesis
      using big step True w3 by (intro exI [of _ W']) simp
  qed
qed

text \<open>
  C7. On an open, empty stream \<open>xprobe_create\<close> always returns; it treats the target as
  a pattern exactly when the target holds one of the characters \<open>?*[!@\<close> and there
  is a symbol table; it hands the control file one create directive per matching symbol,
  in the table's order, or the single directive of a literal target; and it adds the
  number of directives to \<open>n_evs\<close>.
\<close>

theorem create_one_directive_per_target:
  assumes "ctrl xp = Stream" and "is_open W" and "wbuf W = []"
  shows "\<exists>r W'. xprobe_create E xp W =
           Inr (r, xp\<lparr>stem := xprobe_stem E (type xp) (stem xp) (stem_size E),
                       n_evs := n_evs xp + length (targets E (pattern xp))\<rparr>, W') \<and>
           written W' = written W @
             map (create_line (xprobe_stem E (type xp) (stem xp) (stem_size E)))
               (targets E (pattern xp)) \<and>
           wbuf W' = []"
proof -
  let ?st = "xprobe_stem E (type xp) (stem xp) (stem_size E)"
  let ?xp = "xp\<lparr>stem := ?st\<rparr>"
  show ?thesis
  proof (cases "strpbrk (pattern xp) ''?*[!@'' \<noteq> None \<and> ksyms E \<noteq> None")
    case True
    then obtain syms where syms: "ksyms E = Some syms" by auto
    from True have meta: "set (pattern xp) \<inter> set ''?*[!@'' \<noteq> {}"
      using strpbrk_None [of "pattern xp" "''?*[!@''"] by simp
    have ts: "targets E (pattern xp) = filter (fnm E (pattern xp)) syms"
      using syms meta by (simp add: targets_def)
    have "\<exists>W'. create_pattern_loop E syms ?xp W =
                 Inr (?xp\<lparr>n_evs := n_evs ?xp + length (filter (fnm E (pattern ?xp)) syms)\<rparr>, W') \<and>
           written W' = written W @ map (create_line (stem ?xp)) (filter (fnm E (pattern ?xp)) syms) \<and>
           wbuf W' = [] \<and> is_open W' \<and> openfds W' = openfds W"
      using assms by (intro create_pattern_loop_written) simp_all
    then obtain W' where big: "create_pattern_loop E syms ?xp W =
                 Inr (?xp\<lparr>n_evs := n_evs ?xp + length (filter (fnm E (pattern ?xp)) syms)\<rparr>, W') \<and>
           written W' = written W @ map (create_line (stem ?xp)) (filter (fnm E (pattern ?xp)) syms) \<and>
           wbuf W' = [] \<and> is_open W' \<and> openfds W' = openfds W"
      by (elim exE) (erule that)
    have fl: "do_flush E W' = (0, W')" using big by (simp add: do_flush_def)
    have "xprobe_create E xp W =
            Inr (0, ?xp\<lparr>n_evs := n_evs xp + length (filter (fnm E (pattern xp)) syms)\<rparr>, W')"
      using True syms big fl assms(1)
      by (simp add: xprobe_create_def xprobe_create_pattern_def fflush_open Let_def)
    with big ts show ?thesis by simp
  next
    case False
    then have ts: "targets E (pattern xp) = [pattern xp]"
      using strpbrk_None [of "pattern xp" "''?*[!@''"]
      by (auto simp: targets_def split: option.splits)
    let ?W1 = "W\<lparr>wbuf := wbuf W @ create_line ?st (pattern xp)\<rparr>"
    obtain r W2 where fl: "do_flush E ?W1 = (r, W2)" by (cases "do_flush E ?W1")
    note f = flush_one_line [OF assms(3) fl create_line_nonempty]
    have "xprobe_create E xp W =
            Inr (if r \<noteq> 0 then - int r else 0, ?xp\<lparr>n_evs := Suc (n_evs xp)\<rparr>, W2)"
      using False assms fl
      by (auto simp: xprobe_create_def create_open_line fflush_open Let_def)
    with f ts show ?thesis by simp
  qed
qed

text \<open>
  The symbols \<open>foo\<close>, \<open>foobar\<close>, \<open>bar\<close> and the pattern \<open>foo*\<close>: two directives,
  and with a kernel that accepts them attach ends with \<open>n_evs = 2\<close> and the two
  handles 3 and 4 in the first slots of the array, which has four slots where a pointer
  has 8 bytes.
\<close>

theorem create_one_directive_per_target_witness:
  "ctrl xp_foo = Stream \<and> is_open (W_events []) \<and> wbuf (W_events []) = [] \<and>
   (\<exists>r W'. xprobe_create E0 xp_foo (W_events []) =
           Inr (r, xp_foo\<lparr>stem := xprobe_stem E0 (type xp_foo) (stem xp_foo) (stem_size E0),
                       n_evs := n_evs xp_foo + length (targets E0 (pattern xp_foo))\<rparr>, W') \<and>
           written W' = written (W_events []) @
             map (create_line (xprobe_stem E0 (type xp_foo) (stem xp_foo) (stem_size E0)))
               (targets E0 (pattern xp_foo)) \<and>
           wbuf W' = []) \<and>
   xprobe_stem E0 (type xp_foo) (stem xp_foo) (stem_size E0) = ''p:ply/p55d0_'' \<and>
   targets E0 (pattern xp_foo) = [''foo'', ''foobar''] \<and>
   map (create_line ''p:ply/p55d0_'') [''foo'', ''foobar''] =
     [''p:ply/p55d0_foo foo'' @ [CHR 0x0A], ''p:ply/p55d0_foobar foobar'' @ [CHR 0x0A]] \<and>
   map_sum id (written \<circ> snd \<circ> snd) (xprobe_attach E0 (xp0 ''foo*'') W0) =
     Inr [''p:ply/p55d0_foo foo'' @ [CHR 0x0A], ''p:ply/p55d0_foobar foobar'' @ [CHR 0x0A]] \<and>
   map_sum id (\<lambda>(e, xp, W). (e, n_evs xp, evfds xp, openfds W))
     (xprobe_attach E0 (xp0 ''foo*'') W0) = Inr (0, 2, Some [3, 4, 0, 0], [4, 3])"
proof -
  have h1: "ctrl xp_foo = Stream" by (simp add: xp_foo_def)
  have h2: "is_open (W_events [])" by (simp add: W_events_def)
  have h3: "wbuf (W_events []) = []" by (simp add: W_events_def W0_def)
  note c = create_one_directive_per_target [OF h1 h2 h3, of E0]
  have e1: "xprobe_stem E0 (type xp_foo) (stem xp_foo) (stem_size E0) = ''p:ply/p55d0_''"
    by (simp add: xprobe_stem_def xp_foo_def xp0_def E0_def hex.simps)
  have e2: "targets E0 (pattern xp_foo) = [''foo'', ''foobar'']"
    by (simp add: targets_def xp_foo_def xp0_def E0_def)
  have e3: "map (create_line ''p:ply/p55d0_'') [''foo'', ''foobar''] =
     [''p:ply/p55d0_foo foo'' @ [CHR 0x0A], ''p:ply/p55d0_foobar foobar'' @ [CHR 0x0A]]"
    by (simp add: create_line_def funcname_sanitized [symmetric] funcname_def)
  have e4: "map_sum id (written \<circ> snd \<circ> snd) (xprobe_attach E0 (xp0 ''foo*'') W0) =
     Inr [''p:ply/p55d0_foo foo'' @ [CHR 0x0A], ''p:ply/p55d0_foobar foobar'' @ [CHR 0x0A]]"
    and e5: "map_sum id (\<lambda>(e, xp, W). (e, n_evs xp, evfds xp, openfds W))
     (xprobe_attach E0 (xp0 ''foo*'') W0) = Inr (0, 2, Some [3, 4, 0, 0], [4, 3])"
    by (simp_all add: run_defs E0_def xp0_def W0_def)
  from h1 h2 h3 c e1 e2 e3 e4 e5 show ?thesis by (intro conjI)
qed

subsection \<open>Detaching twice\<close>

text \<open>
  C2 fails on the code. Attach and detach of the literal target \<open>do_sys_open\<close> both
  return 0; detach leaves \<open>ctrl\<close> non-null although the stream is closed, so a second
  detach passes its guard and reads the freed handle array.
\<close>

theorem second_detach_faults:
  "map_sum id fst (xprobe_attach E0 (xp0 ''do_sys_open'') W0) = Inr 0 \<and>
   then_do (xprobe_attach E0 (xp0 ''do_sys_open'') W0) (\<lambda>(e, xp, W).
     map_sum id (\<lambda>(e', xp', W'). (e', ctrl xp', is_open W')) (xprobe_detach E0 xp W)) =
     Inr (0, Stream, False) \<and>
   then_do (xprobe_attach E0 (xp0 ''do_sys_open'') W0) (\<lambda>(e, xp, W).
     then_do (xprobe_detach E0 xp W) (\<lambda>(e', xp', W'). xprobe_detach E0 xp' W')) =
     Inl NullDeref"
  by (simp add: run_defs E0_def xp0_def W0_def)

subsection \<open>Names without a newline stay so\<close>

lemma klines_acc_nlfree:
  "CHR 0x0A \<notin> set acc \<Longrightarrow> nlfree (klines_acc acc s)"
  by (induction s arbitrary: acc) (auto simp: nlfree_def)

lemma klines_nlfree: "nlfree (klines s)"
  by (simp add: klines_def klines_acc_nlfree)

lemma kapply_nlfree:
  assumes "CHR 0x0A \<notin> set l" and "nlfree d"
  shows "nlfree (kapply l d)"
proof (cases "take 2 l = ''-:''")
  case True
  then have "kapply l d = filter (\<lambda>n. n \<noteq> drop 2 l) d" by (simp add: kapply_def)
  with assms(2) show ?thesis by (simp add: nlfree_def list_all_iff)
next
  case False
  let ?n = "takeWhile (\<lambda>c. c \<noteq> CHR '' '') (drop 2 l)"
  have "set ?n \<subseteq> set (drop 2 l)" by (auto dest: set_takeWhileD)
  also have "\<dots> \<subseteq> set l" by (rule set_drop_subset)
  finally have nl: "CHR 0x0A \<notin> set ?n" using assms(1) by blast
  have "kapply l d = (if ?n \<in> set d then d else d @ [?n])"
    using False by (simp add: kapply_def Let_def)
  with nl assms(2) show ?thesis by (simp add: nlfree_def)
qed

lemma kexec_nlfree:
  "nlfree ls \<Longrightarrow> nlfree (evdir W) \<Longrightarrow> nlfree (evdir (snd (kexec E ls W)))"
proof (induction ls arbitrary: W)
  case Nil
  then show ?case by simp
next
  case (Cons l ls)
  from Cons.prems have l: "CHR 0x0A \<notin> set l" and ls: "nlfree ls" by (simp_all add: nlfree_def)
  show ?case
  proof (cases "kreject E W l = 0")
    case True
    have "nlfree (evdir (W\<lparr>evdir := kapply l (evdir W)\<rparr>))"
      using kapply_nlfree [OF l Cons.prems(2)] by simp
    from Cons.IH [OF ls this] True show ?thesis by (simp add: kexec_Cons_accept)
  next
    case False
    with Cons.prems show ?thesis by (simp add: kexec_Cons_reject)
  qed
qed

lemma do_flush_nlfree:
  assumes "nlfree (evdir W)" and "do_flush E W = (r, W')"
  shows "nlfree (evdir W')"
proof (cases "wbuf W = []")
  case True
  with assms show ?thesis by (simp add: do_flush_def)
next
  case False
  let ?W0 = "W\<lparr>wbuf := [], written := written W @ [wbuf W]\<rparr>"
  have "nlfree (evdir (snd (kexec E (klines (wbuf W)) ?W0)))"
    using assms(1) by (intro kexec_nlfree klines_nlfree) simp
  moreover have "evdir W' = evdir (snd (kexec E (klines (wbuf W)) ?W0))"
  proof -
    obtain r1 W1 where k: "kexec E (klines (wbuf W)) ?W0 = (r1, W1)"
      by (cases "kexec E (klines (wbuf W)) ?W0")
    with assms(2) False show ?thesis by (auto simp: do_flush_def split: if_splits)
  qed
  ultimately show ?thesis by simp
qed

lemma create_pattern_loop_nlfree:
  assumes "ctrl xp = Stream" and "is_open W" and "nlfree (evdir W)"
    and "create_pattern_loop E syms xp W = Inr (xp', W')"
  shows "nlfree (evdir W')"
  using assms
proof (induction syms arbitrary: xp W)
  case Nil
  then show ?case by simp
next
  case (Cons sy syms)
  show ?case
  proof (cases "fnm E (pattern xp) sy")
    case False
    with Cons show ?thesis by simp
  next
    case True
    let ?W1 = "W\<lparr>wbuf := wbuf W @ create_line (stem xp) sy\<rparr>"
    obtain r W2 where fl: "do_flush E ?W1 = (r, W2)" by (cases "do_flush E ?W1")
    let ?W3 = "if r \<noteq> 0 then warn W2 else W2"
    let ?xp1 = "xp\<lparr>n_evs := Suc (n_evs xp)\<rparr>"
    have nl2: "nlfree (evdir W2)" using do_flush_nlfree [OF _ fl] Cons.prems(3) by simp
    have o2: "is_open W2" using do_flush_fields [OF fl] Cons.prems(2) by simp
    have step: "create_pattern_loop E (sy # syms) xp W = create_pattern_loop E syms ?xp1 ?W3"
      using True Cons.prems(1,2) fl by (simp add: create_open_line fflush_open)
    have "nlfree (evdir W')"
    proof (rule Cons.IH [of ?xp1 ?W3])
      show "ctrl ?xp1 = Stream" using Cons.prems(1) by simp
      show "is_open ?W3" using o2 by (simp add: warn_def)
      show "nlfree (evdir ?W3)" using nl2 by (simp add: warn_def)
      show "create_pattern_loop E syms ?xp1 ?W3 = Inr (xp', W')"
        using step Cons.prems(4) by simp
    qed
    then show ?thesis .
  qed
qed

lemma xprobe_create_post:
  assumes "ctrl xp = Stream" and "is_open W" and "wbuf W = []"
    and "xprobe_create E xp W = Inr (r, xp', W')"
  shows "ctrl xp' = Stream \<and> is_open W' \<and> wbuf W' = [] \<and> openfds W' = openfds W \<and>
         (nlfree (evdir W) \<longrightarrow> nlfree (evdir W'))"
proof -
  let ?st = "xprobe_stem E (type xp) (stem xp) (stem_size E)"
  let ?xp = "xp\<lparr>stem := ?st\<rparr>"
  show ?thesis
  proof (cases "strpbrk (pattern xp) ''?*[!@'' \<noteq> None \<and> ksyms E \<noteq> None")
    case True
    then obtain syms where syms: "ksyms E = Some syms" by auto
    have "\<exists>W'. create_pattern_loop E syms ?xp W =
                 Inr (?xp\<lparr>n_evs := n_evs ?xp + length (filter (fnm E (pattern ?xp)) syms)\<rparr>, W') \<and>
           written W' = written W @ map (create_line (stem ?xp)) (filter (fnm E (pattern ?xp)) syms) \<and>
           wbuf W' = [] \<and> is_open W' \<and> openfds W' = openfds W"
      using assms by (intro create_pattern_loop_written) simp_all
    then obtain W2 where big: "create_pattern_loop E syms ?xp W =
                 Inr (?xp\<lparr>n_evs := n_evs ?xp + length (filter (fnm E (pattern ?xp)) syms)\<rparr>, W2) \<and>
           written W2 = written W @ map (create_line (stem ?xp)) (filter (fnm E (pattern ?xp)) syms) \<and>
           wbuf W2 = [] \<and> is_open W2 \<and> openfds W2 = openfds W"
      by (elim exE) (erule that)
    have fl: "do_flush E W2 = (0, W2)" using big by (simp add: do_flush_def)
    have res: "xprobe_create E xp W =
            Inr (0, ?xp\<lparr>n_evs := n_evs xp + length (filter (fnm E (pattern xp)) syms)\<rparr>, W2)"
      using True syms big fl assms(1)
      by (simp add: xprobe_create_def xprobe_create_pattern_def fflush_open Let_def)
    have nl: "nlfree (evdir W) \<longrightarrow> nlfree (evdir W2)"
    proof
      assume "nlfree (evdir W)"
      with big show "nlfree (evdir W2)"
        using create_pattern_loop_nlfree [of ?xp W E syms _ W2] assms(1,2) by simp
    qed
    from res assms(4) have "xp' = ?xp\<lparr>n_evs := n_evs xp + length (filter (fnm E (pattern xp)) syms)\<rparr>"
      and "W' = W2" by simp_all
    with big nl assms(1) show ?thesis by simp
  next
    case False
    let ?W1 = "W\<lparr>wbuf := wbuf W @ create_line ?st (pattern xp)\<rparr>"
    obtain r2 W2 where fl: "do_flush E ?W1 = (r2, W2)" by (cases "do_flush E ?W1")
    note f = do_flush_fields [OF fl]
    have res: "xprobe_create E xp W =
            Inr (if r2 \<noteq> 0 then - int r2 else 0, ?xp\<lparr>n_evs := Suc (n_evs xp)\<rparr>, W2)"
      using False assms(1,2,3) fl
      by (auto simp: xprobe_create_def create_open_line fflush_open Let_def)
    have nl: "nlfree (evdir W) \<longrightarrow> nlfree (evdir W2)"
      using do_flush_nlfree [OF _ fl] by simp
    from res assms(4) have "xp' = ?xp\<lparr>n_evs := Suc (n_evs xp)\<rparr>" and "W' = W2" by simp_all
    with f nl assms(1,2) show ?thesis by simp
  qed
qed

subsection \<open>Rollback and round trip\<close>

lemma err_close_result: "err_close E err xp W = Inr (r, xp', W') \<Longrightarrow> r = err"
  by (auto simp: err_close_def then_do_def split: sum.splits prod.splits)

lemma err_detach_result: "err_detach E err xp W = Inr (r, xp', W') \<Longrightarrow> r = err"
  by (auto simp: err_detach_def then_do_def split: sum.splits prod.splits dest: err_close_result)

lemma uu_attach_post:
  assumes "uu_xprobe_attach E xp W = Inr (e, xp', W')" and "evfds xp = Some a"
  shows "evdir W' = evdir W \<and> wbuf W' = wbuf W \<and> is_open W' = is_open W \<and>
         ctrl xp' = ctrl xp \<and> n_evs xp' = n_evs xp \<and> e \<le> 0 \<and>
         (e = 0 \<longrightarrow> discovered E W \<noteq> []) \<and>
         (discovered E W \<noteq> [] \<longrightarrow>
            (\<exists>a'. evfds xp' = Some a' \<and> length a' = length a \<and>
                  set (openfds W') \<subseteq>
                    set (openfds W) \<union> set (take (length (discovered E W)) a')) \<and>
            (e \<noteq> 0 \<longrightarrow> (\<exists>W'' n. n \<in> set (discovered E W) \<and>
                 perf_event_attach E W'' (tracepath E @ ''events/'' @ n) = e)))"
proof (cases "discovered E W = []")
  case True
  with assms show ?thesis by (simp add: uu_attach_none EINVAL_def)
next
  case False
  let ?gl = "map (\<lambda>n. tracepath E @ ''events/'' @ n) (discovered E W)"
  let ?Ww = "if length (discovered E W) \<noteq> n_evs xp then warn W else W"
  have ww: "evdir ?Ww = evdir W" "wbuf ?Ww = wbuf W" "is_open ?Ww = is_open W"
    "openfds ?Ww = openfds W" by (simp_all add: warn_def)
  from assms False have "then_do (attach_loop E ?gl 0 a ?Ww)
       (\<lambda>(err', a', W'). Inr (err', xp\<lparr>evfds := Some a'\<rparr>, W')) = Inr (e, xp', W')"
    by (simp add: uu_attach_some)
  then obtain a' where loop: "attach_loop E ?gl 0 a ?Ww = Inr (e, a', W')"
    and xp': "xp' = xp\<lparr>evfds := Some a'\<rparr>"
    by (cases "attach_loop E ?gl 0 a ?Ww") auto
  note p = attach_loop_post [OF loop, unfolded ww]
  have src: "e \<noteq> 0 \<longrightarrow> (\<exists>W'' n. n \<in> set (discovered E W) \<and>
                 perf_event_attach E W'' (tracepath E @ ''events/'' @ n) = e)"
  proof
    assume "e \<noteq> 0"
    from attach_loop_error_source [OF loop this] show "\<exists>W'' n. n \<in> set (discovered E W) \<and>
                 perf_event_attach E W'' (tracepath E @ ''events/'' @ n) = e" by auto
  qed
  from attach_loop_fds [OF loop]
  have "set (openfds W') \<subseteq> set (openfds W) \<union> set (take (length (discovered E W)) a')"
    by (simp add: ww)
  with p xp' src False show ?thesis by simp
qed

text \<open>What the label \<open>err_close\<close> of attach does to an open, empty stream.\<close>

lemma err_close_full:
  assumes "ctrl xp = Stream" and "is_open W" and "wbuf W = []" and "nlfree (evdir W)"
    and "discovered E W \<noteq> []"
  shows "\<exists>W' ns1 ns2. err_close E err xp W = Inr (err, xp, W') \<and> \<not> is_open W' \<and>
           openfds W' = openfds W \<and>
           discovered E W = ns1 @ ns2 \<and> ns1 \<noteq> [] \<and>
           concat (written W') = concat (written W) @ concat (map delete_line ns1) \<and>
           (wfail W' = wfail W \<longrightarrow> ns2 = [] \<and> discovered E W' = []) \<and>
           ((\<forall>W n. kreject E W (delete_cmd n) = 0) \<longrightarrow> wfail W' = wfail W)"
proof -
  from delete_all_full [OF assms]
  obtain e W2 ns1 ns2 where big: "uu_xprobe_delete_all E xp W = Inr (e, W2) \<and> is_open W2 \<and>
     openfds W2 = openfds W \<and>
     warnings W2 =
       (if length (discovered E W) \<noteq> n_evs xp then Suc (warnings W) else warnings W) \<and>
     discovered E W = ns1 @ ns2 \<and> ns1 \<noteq> [] \<and>
     concat (written W2) @ wbuf W2 = concat (written W) @ concat (map delete_line ns1) \<and>
     (e = 0 \<and> ns2 = [] \<and> wfail W2 = wfail W \<or>
      e = EOF \<and> wfail W2 = Suc (wfail W) \<and> wbuf W2 = []) \<and>
     (\<forall>r W3. do_flush E W2 = (r, W3) \<longrightarrow>
        (e = 0 \<and> r = 0 \<longrightarrow> discovered E W3 = []) \<and>
        ((\<forall>W n. kreject E W (delete_cmd n) = 0) \<longrightarrow> r = 0)) \<and>
     ((\<forall>W n. kreject E W (delete_cmd n) = 0) \<longrightarrow> e = 0)"
    by (elim exE) (erule that)
  from big have da: "uu_xprobe_delete_all E xp W = Inr (e, W2)" by (elim conjE)
  from big have o2: "is_open W2" by (elim conjE)
  from big have fd2: "openfds W2 = openfds W" by (elim conjE)
  from big have split: "discovered E W = ns1 @ ns2" by (elim conjE)
  from big have ne1: "ns1 \<noteq> []" by (elim conjE)
  from big have wr: "concat (written W2) @ wbuf W2 =
      concat (written W) @ concat (map delete_line ns1)" by (elim conjE)
  from big have cs: "e = 0 \<and> ns2 = [] \<and> wfail W2 = wfail W \<or>
      e = EOF \<and> wfail W2 = Suc (wfail W) \<and> wbuf W2 = []" by (elim conjE)
  from big have flq: "\<forall>r W3. do_flush E W2 = (r, W3) \<longrightarrow>
        (e = 0 \<and> r = 0 \<longrightarrow> discovered E W3 = []) \<and>
        ((\<forall>W n. kreject E W (delete_cmd n) = 0) \<longrightarrow> r = 0)" by (elim conjE)
  from big have hon: "(\<forall>W n. kreject E W (delete_cmd n) = 0) \<longrightarrow> e = 0" by (elim conjE)
  obtain r W3 where fl: "do_flush E W2 = (r, W3)" by (cases "do_flush E W2")
  note f = do_flush_fields [OF fl]
  from flq fl have clr: "e = 0 \<and> r = 0 \<longrightarrow> discovered E W3 = []"
    and hon2: "(\<forall>W n. kreject E W (delete_cmd n) = 0) \<longrightarrow> r = 0" by simp_all
  define W' where "W' = W3\<lparr>is_open := False\<rparr>"
  have EOF0: "EOF \<noteq> 0" by (simp add: EOF_def)
  have res: "err_close E err xp W = Inr (err, xp, W')"
    using da o2 fl assms(1) by (simp add: err_close_def fclose_open W'_def)
  have cl: "\<not> is_open W'" by (simp add: W'_def)
  have fd: "openfds W' = openfds W" using f fd2 by (simp add: W'_def)
  have wr': "concat (written W') = concat (written W) @ concat (map delete_line ns1)"
    using f wr by (cases "wbuf W2 = []") (simp_all add: W'_def)
  have d3: "discovered E W' = discovered E W3" by (simp add: W'_def discovered_def)
  have same: "wfail W' = wfail W \<longleftrightarrow> e = 0 \<and> r = 0"
  proof (cases "e = 0")
    case True
    with cs EOF0 have "wfail W2 = wfail W" by auto
    with True f show ?thesis by (simp add: W'_def)
  next
    case False
    with cs have "wfail W2 = Suc (wfail W)" "wbuf W2 = []" by auto
    with fl have "wfail W3 = Suc (wfail W)" by (simp add: do_flush_def)
    with False show ?thesis by (simp add: W'_def)
  qed
  have gone: "wfail W' = wfail W \<longrightarrow> ns2 = [] \<and> discovered E W' = []"
  proof
    assume "wfail W' = wfail W"
    with same have z: "e = 0" "r = 0" by simp_all
    with cs EOF0 have "ns2 = []" by auto
    moreover from clr z d3 have "discovered E W' = []" by simp
    ultimately show "ns2 = [] \<and> discovered E W' = []" by (rule conjI)
  qed
  have honw: "(\<forall>W n. kreject E W (delete_cmd n) = 0) \<longrightarrow> wfail W' = wfail W"
  proof
    assume hk: "\<forall>W n. kreject E W (delete_cmd n) = 0"
    from hon hk have "e = 0" by (rule mp)
    moreover from hon2 hk have "r = 0" by (rule mp)
    ultimately show "wfail W' = wfail W" using same by simp
  qed
  have c: "err_close E err xp W = Inr (err, xp, W') \<and> \<not> is_open W' \<and>
           openfds W' = openfds W \<and>
           discovered E W = ns1 @ ns2 \<and> ns1 \<noteq> [] \<and>
           concat (written W') = concat (written W) @ concat (map delete_line ns1) \<and>
           (wfail W' = wfail W \<longrightarrow> ns2 = [] \<and> discovered E W' = []) \<and>
           ((\<forall>W n. kreject E W (delete_cmd n) = 0) \<longrightarrow> wfail W' = wfail W)"
    using res cl fd split ne1 wr' gone honw by (intro conjI)
  show ?thesis by (rule exI3) (rule c)
qed




lemma attach_success_state:
  assumes "xprobe_attach E xp W = Inr (0, xp1, W1)"
  shows "ctrl xp1 = Stream \<and> is_open W1 \<and> wbuf W1 = [] \<and>
         (\<exists>a. evfds xp1 = Some a \<and> n_evs xp1 \<le> length a) \<and>
         discovered E W1 \<noteq> [] \<and> (nlfree (evdir W) \<longrightarrow> nlfree (evdir W1))"
proof -
  let ?xp = "xp\<lparr>ctrl := Stream\<rparr>"
  let ?W = "W\<lparr>is_open := True, wbuf := []\<rparr>"
  have fo: "fopen_errno E = 0"
  proof (rule ccontr)
    assume "fopen_errno E \<noteq> 0"
    with assms show False by (simp add: xprobe_attach_def)
  qed
  have sv: "setvbuf_errno E = 0"
  proof (rule ccontr)
    assume n: "setvbuf_errno E \<noteq> 0"
    with assms fo have "err_close E (- int (setvbuf_errno E)) ?xp ?W = Inr (0, xp1, W1)"
      by (simp add: xprobe_attach_def Let_def)
    from err_close_result [OF this] n show False by simp
  qed
  obtain err xp1' W1' where cr: "xprobe_create E ?xp ?W = Inr (err, xp1', W1')"
  proof (cases "xprobe_create E ?xp ?W")
    case (Inl f)
    with assms fo sv show ?thesis by (simp add: xprobe_attach_def Let_def)
  next
    case (Inr t)
    then show ?thesis using that by (cases t) auto
  qed
  note un = xprobe_attach_unfold [OF fo sv cr]
  have e0: "err = 0"
  proof (rule ccontr)
    assume n: "err \<noteq> 0"
    with un assms have "err_close E err xp1' W1' = Inr (0, xp1, W1)" by simp
    from err_close_result [OF this] n show False by simp
  qed
  let ?xp2 = "xp1'\<lparr>evfds := Some (xcalloc (n_evs xp1') (sizeof_ptr (abi E)))\<rparr>"
  from un e0 assms have td: "then_do (uu_xprobe_attach E ?xp2 W1')
                 (\<lambda>(err', xp3, W3).
                    if err' \<noteq> 0 then err_detach E err' xp3 W3 else Inr (0, xp3, W3)) =
               Inr (0, xp1, W1)" by simp
  obtain err' xp3 W3 where ua: "uu_xprobe_attach E ?xp2 W1' = Inr (err', xp3, W3)"
  proof (cases "uu_xprobe_attach E ?xp2 W1'")
    case (Inl f)
    with td show ?thesis by simp
  next
    case (Inr t)
    then show ?thesis using that by (cases t) auto
  qed
  have e0': "err' = 0"
  proof (rule ccontr)
    assume n: "err' \<noteq> 0"
    with td ua have "err_detach E err' xp3 W3 = Inr (0, xp1, W1)" by simp
    from err_detach_result [OF this] n show False by simp
  qed
  from td ua e0' have eq: "xp3 = xp1" "W3 = W1" by simp_all
  have c: "ctrl xp1' = Stream \<and> is_open W1' \<and> wbuf W1' = [] \<and> openfds W1' = openfds ?W \<and>
         (nlfree (evdir ?W) \<longrightarrow> nlfree (evdir W1'))"
    by (rule xprobe_create_post [OF _ _ _ cr]) simp_all
  have ev2: "evfds ?xp2 = Some (xcalloc (n_evs xp1') (sizeof_ptr (abi E)))" by simp
  note u = uu_attach_post [OF ua ev2]
  from u e0' have ne: "discovered E W1' \<noteq> []" by simp
  with u obtain a' where a': "evfds xp3 = Some a'"
    "length a' = length (xcalloc (n_evs xp1') (sizeof_ptr (abi E)))" by auto
  from a'(2) have ge: "n_evs xp1' \<le> length a'" by (simp add: xcalloc_ge)
  from u have "discovered E W3 = discovered E W1'" by (simp add: discovered_def)
  with u c ne a'(1) ge eq show ?thesis by simp
qed



end
